theory Spec2Isabelle
  imports Complex_Main "HOL-Library.Word" "HOL-Library.Log_Nat"
begin

unbundle bit_operations_syntax

section \<open>Common material\<close>

text \<open>
  The Python exceptions that the modelled functions can raise. A function that can raise
  returns \<open>py_error + 'a\<close>, with \<open>Inl\<close> for the exception.
\<close>

datatype py_error =
    IndexError | KeyError | ZeroDivisionError | ValueError | TypeError | AttributeError

text \<open>
  Python's \<open>/\<close> on Python numbers raises \<open>ZeroDivisionError\<close> when the divisor is zero.
  Python floats are modelled by the real numbers: rounding, overflow and underflow of the
  64-bit format are not modelled, except in the quadratic fit of \<open>area_volume_map.py\<close>,
  whose outcome depends on the rounding (see there).
\<close>

definition py_div :: "real \<Rightarrow> real \<Rightarrow> py_error + real" where
  "py_div a b = (if b = 0 then Inl ZeroDivisionError else Inr (a / b))"

text \<open>
  NumPy's \<open>/\<close> on NumPy scalars does not raise: a zero divisor gives \<open>nan\<close> (for \<open>0/0\<close>)
  or an infinity, with a \<open>RuntimeWarning\<close> only. \<open>np_float\<close> is a float64 value as far as
  the program distinguishes it.
\<close>

datatype np_float = F real | NaN | PosInf | NegInf



section \<open>polygon_tools.py\<close>

text \<open>
  A polygon is a Python list of integer points \<open>[x, y]\<close>. The float accumulators of the
  source are reals; on integer points every value they hold is an integer or half an
  integer, except for the square roots of the perimeter.
\<close>

type_synonym point = "int \<times> int"
type_synonym polygon = "point list"

text \<open>
  \<open>polygon_perimeter\<close>: the loop \<open>for idx in range(len(pt_list)-1)\<close> adds the length of the
  edge from \<open>pt_list[idx]\<close> to \<open>pt_list[idx+1]\<close>; then the closing edge from the last point
  to the first is added. On the empty list the loop does not run and \<open>pt_list[0]\<close> raises
  \<open>IndexError\<close>.
\<close>

definition edge_length :: "point \<Rightarrow> point \<Rightarrow> real" where
  "edge_length p q =
     (let dx = fst q - fst p; dy = snd q - snd p
      in sqrt (real_of_int (dx * dx + dy * dy)))"

fun perimeter_loop :: "polygon \<Rightarrow> real \<Rightarrow> real" where
  "perimeter_loop (p # q # ps) acc = perimeter_loop (q # ps) (acc + edge_length p q)"
| "perimeter_loop ps acc = acc"

definition polygon_perimeter :: "polygon \<Rightarrow> py_error + real" where
  "polygon_perimeter pt_list =
     (if pt_list = [] then Inl IndexError
      else Inr (perimeter_loop pt_list 0 + edge_length (last pt_list) (hd pt_list)))"

text \<open>
  \<open>polygon_signed_area\<close>: fewer than three points give \<open>0.0\<close>; otherwise the shoelace terms
  of consecutive points are summed (the variable \<open>sum\<close> of the source is \<open>acc\<close> here), the
  closing term is added when the first and the last point differ, and the sum is halved.
\<close>

definition shoelace_term :: "point \<Rightarrow> point \<Rightarrow> real" where
  "shoelace_term p q = real_of_int (snd p * fst q - fst p * snd q)"

fun shoelace_loop :: "polygon \<Rightarrow> real \<Rightarrow> real" where
  "shoelace_loop (p # q # ps) acc = shoelace_loop (q # ps) (acc + shoelace_term p q)"
| "shoelace_loop ps acc = acc"

definition polygon_signed_area :: "polygon \<Rightarrow> real" where
  "polygon_signed_area pt_list =
     (if length pt_list < 3 then 0
      else
        let acc = shoelace_loop pt_list 0;
            acc = (if fst (hd pt_list) \<noteq> fst (last pt_list) \<or> snd (hd pt_list) \<noteq> snd (last pt_list)
                   then acc + shoelace_term (last pt_list) (hd pt_list)
                   else acc)
        in acc / 2)"

definition polygon_area :: "polygon \<Rightarrow> real" where
  "polygon_area pt_list =
     (let area = polygon_signed_area pt_list
      in if area < 0 then area * (- 1) else area)"

text \<open>\<open>polygon_mbr\<close>: \<open>min\<close> and \<open>max\<close> of an empty list raise \<open>ValueError\<close>.\<close>

definition polygon_mbr :: "polygon \<Rightarrow> py_error + (int \<times> int \<times> int \<times> int)" where
  "polygon_mbr polygon =
     (if polygon = [] then Inl ValueError
      else
        let x_coords = map fst polygon;
            y_coords = map snd polygon;
            x = Min (set x_coords);
            w = Max (set x_coords) - x + 1;
            y = Min (set y_coords);
            h = Max (set y_coords) - y + 1
        in Inr (x, y, w, h))"

definition point_in_polygon_mbr :: "point \<Rightarrow> polygon \<Rightarrow> py_error + bool" where
  "point_in_polygon_mbr pt polygon =
     (case polygon_mbr polygon of
        Inl e \<Rightarrow> Inl e
      | Inr (x, y, w, h) \<Rightarrow>
          if fst pt < x \<or> fst pt > x + w then Inr False
          else if snd pt < y \<or> snd pt > y + h then Inr False
          else Inr True)"

text \<open>\<open>circularity\<close>: \<open>0.0\<close> when the perimeter is not positive, else \<open>4 pi A / L^2\<close>.\<close>

definition circularity :: "polygon \<Rightarrow> py_error + real" where
  "circularity polygon =
     (case polygon_perimeter polygon of
        Inl e \<Rightarrow> Inl e
      | Inr L \<Rightarrow>
          if L \<le> 0 then Inr 0
          else
            let A = polygon_area polygon
            in Inr ((4 * pi * A) / (L * L)))"

section \<open>area_volume_map.py\<close>

text \<open>
  The class \<open>AreaVolumeMap\<close> holds the two coefficients of \<open>V(x) = c2*x^2 + c1*x\<close>.
  A calibration point is a pair (area, volume).
\<close>

record AreaVolumeMap =
  c1 :: real
  c2 :: real


text \<open>
  \<open>_compute_linear_model\<close>: the loop accumulates \<open>sum_xx\<close> and \<open>sum_xy\<close>; the division
  \<open>sum_xy/sum_xx\<close> has no guard.
\<close>

fun linear_sums :: "(real \<times> real) list \<Rightarrow> real \<times> real \<Rightarrow> real \<times> real" where
  "linear_sums [] acc = acc"
| "linear_sums (point # points) (sum_xx, sum_xy) =
     linear_sums points (sum_xx + fst point ^ 2, sum_xy + fst point * snd point)"

definition compute_linear_model ::
  "AreaVolumeMap \<Rightarrow> (real \<times> real) list \<Rightarrow> py_error + AreaVolumeMap" where
  "compute_linear_model self points =
     (let (sum_xx, sum_xy) = linear_sums points (0, 0)
      in case py_div sum_xy sum_xx of
           Inl e \<Rightarrow> Inl e
         | Inr q \<Rightarrow> Inr (self\<lparr>c1 := q, c2 := 0\<rparr>))"

text \<open>
  The quadratic fit depends on the rounding of the 64-bit floats: a determinant that is
  zero over the reals is mostly not zero as the program computes it. So the arithmetic
  of \<open>_compute_second_order_model\<close> is modelled with its rounding. A float is the real
  number it stands for. \<open>fl x\<close> is the binary64 number nearest to \<open>x\<close> (53 significant
  bits, ties to the even significand), which is what \<open>+\<close>, \<open>-\<close>, \<open>*\<close> and \<open>/\<close> give for the
  exact result \<open>x\<close>. The exponent is not bounded: overflow, subnormal numbers and the
  sign of a zero are not modelled (areas and volumes of a calibration are far from
  \<open>1e-150\<close> and \<open>1e150\<close>).
\<close>

definition round_half_even :: "real \<Rightarrow> int" where
  "round_half_even x =
     (let f = \<lfloor>x\<rfloor>; d = x - of_int f
      in if d < 1 / 2 then f else if 1 / 2 < d then f + 1 else if even f then f else f + 1)"

text \<open>\<open>exponent2 x\<close> is the \<open>e\<close> with \<open>2^e \<le> |x| < 2^(e+1)\<close>, for \<open>x\<close> other than 0.\<close>

definition exponent2 :: "real \<Rightarrow> int" where
  "exponent2 x =
     (if 1 \<le> \<bar>x\<bar> then bitlen \<lfloor>\<bar>x\<bar>\<rfloor> - 1 else - bitlen (\<lceil>1 / \<bar>x\<bar>\<rceil> - 1))"

definition pow2 :: "int \<Rightarrow> real" where
  "pow2 e = (if 0 \<le> e then 2 ^ nat e else 1 / 2 ^ nat (- e))"

definition fl :: "real \<Rightarrow> real" where
  "fl x =
     (if x = 0 then 0
      else let e = exponent2 x - 52 in of_int (round_half_even (x / pow2 e)) * pow2 e)"

text \<open>
  Python's \<open>x**n\<close> on a float calls \<open>pow\<close> of the C library, which is not correctly
  rounded on every platform: its result can differ from \<open>fl (x ^ n)\<close> in the last bit,
  also for \<open>n = 2\<close>. So \<open>x**n\<close> is a parameter \<open>pw x n\<close> of the model, and the
  properties of the quadratic fit hold for every \<open>pw\<close>.

  \<open>_compute_second_order_model\<close>: six sums, then two divisions by \<open>a1*b2 - a2*b1\<close>,
  neither of them guarded. \<open>self.c2\<close> is assigned first, then \<open>self.c1\<close>.
\<close>

record quad_sums =
  qa1 :: real
  qb1 :: real
  qc1 :: real
  qa2 :: real
  qb2 :: real
  qc2 :: real

fun second_order_sums ::
  "(real \<Rightarrow> nat \<Rightarrow> real) \<Rightarrow> (real \<times> real) list \<Rightarrow> quad_sums \<Rightarrow> quad_sums" where
  "second_order_sums pw [] acc = acc"
| "second_order_sums pw (p # points) acc =
     (let x = fst p; y = snd p
      in second_order_sums pw points
           \<lparr>qa1 = fl (qa1 acc + pw x 3), qb1 = fl (qb1 acc + pw x 2),
            qc1 = fl (qc1 acc + fl (x * y)),
            qa2 = fl (qa2 acc + pw x 4), qb2 = fl (qb2 acc + pw x 3),
            qc2 = fl (qc2 acc + fl (fl (x * x) * y))\<rparr>)"

text \<open>The determinant as the program computes it: the value of \<open>(a1*b2 - a2*b1)\<close>.\<close>

definition normal_det :: "(real \<Rightarrow> nat \<Rightarrow> real) \<Rightarrow> (real \<times> real) list \<Rightarrow> real" where
  "normal_det pw points =
     (let s = second_order_sums pw points
                \<lparr>qa1 = 0, qb1 = 0, qc1 = 0, qa2 = 0, qb2 = 0, qc2 = 0\<rparr>
      in fl (fl (qa1 s * qb2 s) - fl (qa2 s * qb1 s)))"

definition compute_second_order_model ::
  "(real \<Rightarrow> nat \<Rightarrow> real) \<Rightarrow> AreaVolumeMap \<Rightarrow> (real \<times> real) list \<Rightarrow> py_error + AreaVolumeMap" where
  "compute_second_order_model pw self points =
     (let s = second_order_sums pw points
                \<lparr>qa1 = 0, qb1 = 0, qc1 = 0, qa2 = 0, qb2 = 0, qc2 = 0\<rparr>
      in case py_div (fl (fl (qb2 s * qc1 s) - fl (qb1 s * qc2 s)))
                     (fl (fl (qa1 s * qb2 s) - fl (qa2 s * qb1 s))) of
           Inl e \<Rightarrow> Inl e
         | Inr new_c2 \<Rightarrow>
             (case py_div (fl (fl (qa1 s * qc2 s) - fl (qa2 s * qc1 s)))
                          (fl (fl (qa1 s * qb2 s) - fl (qa2 s * qb1 s))) of
                Inl e \<Rightarrow> Inl e
              | Inr new_c1 \<Rightarrow> Inr (self\<lparr>c2 := fl new_c2, c1 := fl new_c1\<rparr>)))"

text \<open>
  \<open>compute_model\<close> returns the boolean of the source together with the updated object,
  or the exception that one of the two fits raised.
\<close>

definition compute_model ::
  "(real \<Rightarrow> nat \<Rightarrow> real) \<Rightarrow> AreaVolumeMap \<Rightarrow> (real \<times> real) list \<Rightarrow>
     py_error + (bool \<times> AreaVolumeMap)" where
  "compute_model pw self points =
     (let self = self\<lparr>c1 := 0, c2 := 0\<rparr>
      in if length points \<le> 0 then Inr (False, self)
         else if length points \<le> 3 then
           (case compute_linear_model self points of
              Inl e \<Rightarrow> Inl e
            | Inr self \<Rightarrow> Inr (True, self))
         else
           (case compute_second_order_model pw self points of
              Inl e \<Rightarrow> Inl e
            | Inr self \<Rightarrow> Inr (True, self)))"

section \<open>vsa.py\<close>

subsection \<open>Arrays\<close>

text \<open>
  A two-dimensional NumPy array is the list of its rows; \<open>a ! y ! x\<close> is \<open>a[y, x]\<close>.
  \<open>is_array h w a\<close> says that \<open>a\<close> has shape \<open>(h, w)\<close>.
\<close>

type_synonym 'a grid = "'a list list"

definition is_array :: "nat \<Rightarrow> nat \<Rightarrow> 'a grid \<Rightarrow> bool" where
  "is_array h w a \<longleftrightarrow> length a = h \<and> list_all (\<lambda>row. length row = w) a"

definition same_shape :: "'a grid \<Rightarrow> 'b grid \<Rightarrow> bool" where
  "same_shape a b \<longleftrightarrow> map length a = map length b"

text \<open>\<open>imap2 f a\<close> replaces every element \<open>a[y, x]\<close> by \<open>f y x a[y, x]\<close>.\<close>

definition imap2 :: "(nat \<Rightarrow> nat \<Rightarrow> 'a \<Rightarrow> 'b) \<Rightarrow> 'a grid \<Rightarrow> 'b grid" where
  "imap2 f a =
     map (\<lambda>(y, row). map (\<lambda>(x, v). f y x v) (enumerate 0 row)) (enumerate 0 a)"

text \<open>The slice \<open>a[y:y+h, x:x+w]\<close> for non-negative bounds; it is clipped to the array.\<close>

definition slice2 :: "'a grid \<Rightarrow> nat \<Rightarrow> nat \<Rightarrow> nat \<Rightarrow> nat \<Rightarrow> 'a grid" where
  "slice2 a y h x w = map (\<lambda>row. take w (drop x row)) (take h (drop y a))"

definition in_window :: "nat \<Rightarrow> nat \<Rightarrow> nat \<Rightarrow> nat \<Rightarrow> nat \<Rightarrow> nat \<Rightarrow> bool" where
  "in_window y1 y2 x1 x2 y x \<longleftrightarrow> y1 \<le> y \<and> y < y2 \<and> x1 \<le> x \<and> x < x2"

text \<open>
  The assignment \<open>a[y1:y2, x1:x2] = b\<close> of an array \<open>b\<close>. NumPy wants the shape of \<open>b\<close>
  to fit the shape of the slice and raises \<open>ValueError\<close> otherwise (broadcasting of a
  smaller \<open>b\<close> is not modelled: the program assigns blocks of the shape of the slice).
\<close>

definition assign_slice ::
  "'a grid \<Rightarrow> nat \<Rightarrow> nat \<Rightarrow> nat \<Rightarrow> nat \<Rightarrow> 'a grid \<Rightarrow> py_error + 'a grid" where
  "assign_slice a y1 y2 x1 x2 b =
     (if same_shape (slice2 a y1 (y2 - y1) x1 (x2 - x1)) b
      then Inr (imap2 (\<lambda>y x v. if in_window y1 y2 x1 x2 y x then b ! (y - y1) ! (x - x1) else v) a)
      else Inl ValueError)"

text \<open>The assignment \<open>a[y1:y2, x1:x2] = c\<close> of a scalar \<open>c\<close>.\<close>

definition fill_slice :: "'a grid \<Rightarrow> nat \<Rightarrow> nat \<Rightarrow> nat \<Rightarrow> nat \<Rightarrow> 'a \<Rightarrow> 'a grid" where
  "fill_slice a y1 y2 x1 x2 c = imap2 (\<lambda>y x v. if in_window y1 y2 x1 x2 y x then c else v) a"

subsection \<open>What the program uses of OpenCV\<close>

text \<open>
  The OpenCV functions are parameters of the model, collected in one record:
  \<^item> \<open>findContours\<close>: the external contours of a mask (\<open>RETR_EXTERNAL\<close>,
    \<open>CHAIN_APPROX_NONE\<close>), each already a list of points as \<open>contour_to_polygon\<close> gives it;
  \<^item> \<open>filled\<close>: \<open>filled cs x y\<close> holds when \<open>drawContours\<close> with \<open>thickness=FILLED\<close> paints
    the pixel in column \<open>x\<close> and row \<open>y\<close> for the contours \<open>cs\<close>; which pixels are painted
    depends on the contours only, not on the image drawn into;
  \<^item> \<open>thresh_otsu\<close>, \<open>thresh_triangle\<close>: the threshold that \<open>cv2.threshold\<close> computes with
    \<open>THRESH_OTSU\<close> and with \<open>THRESH_TRIANGLE\<close>.
  Masks hold 0 and 255 and are arrays of bytes; image samples are natural numbers.
  The contours that the program draws come from polygons with points (its callers pass
  at least three); what OpenCV does with a contour of no point is not modelled.
\<close>

record cv2 =
  findContours :: "8 word grid \<Rightarrow> polygon list"
  filled :: "polygon list \<Rightarrow> nat \<Rightarrow> nat \<Rightarrow> bool"
  thresh_otsu :: "nat grid \<Rightarrow> real"
  thresh_triangle :: "nat grid \<Rightarrow> real"

text \<open>\<open>cv2.drawContours(dst, contours, -1, color=color, thickness=cv2.FILLED)\<close>.\<close>

definition drawContours :: "cv2 \<Rightarrow> 8 word grid \<Rightarrow> polygon list \<Rightarrow> 8 word \<Rightarrow> 8 word grid" where
  "drawContours cv dst contours color =
     imap2 (\<lambda>y x v. if filled cv contours x y then color else v) dst"

text \<open>\<open>cv2.threshold(src, thresh, 255, cv2.THRESH_BINARY)\<close>: 255 where \<open>src > thresh\<close>.\<close>

definition threshold_binary :: "nat grid \<Rightarrow> int \<Rightarrow> 8 word grid" where
  "threshold_binary src thresh = map (map (\<lambda>v. if int v > thresh then 255 else 0)) src"

definition np_any :: "8 word grid \<Rightarrow> bool" where
  "np_any a = list_ex (list_ex (\<lambda>v. v \<noteq> 0)) a"

text \<open>Python's \<open>int\<close> of a float truncates towards zero.\<close>

definition py_int :: "real \<Rightarrow> int" where
  "py_int r = (if 0 \<le> r then \<lfloor>r\<rfloor> else \<lceil>r\<rceil>)"

subsection \<open>The state of a \<open>VsaProcessor\<close>\<close>

text \<open>
  The dictionary \<open>poly_props\<close> of \<open>measure_spots\<close>: every key is always set, except
  \<open>'class'\<close>, which is set only when three thresholds are given; the field \<open>spot_class\<close> is
  \<open>None\<close> when the key is absent. The key \<open>'points'\<close> is the field \<open>poly_points\<close>.
\<close>

datatype size_class = Junk | Nano | Micro | Primary

record poly_props =
  img_x :: int
  img_y :: int
  img_w :: int
  img_h :: int
  perimeter_pix :: real
  perimeter_cm :: real
  area_pix2 :: real
  area_cm2 :: real
  volume_ul :: real
  spot_class :: "size_class option"
  eccentricity :: real
  ave_dist_to_edge_pix :: np_float
  ave_dist_to_edge_cm :: np_float
  poly_points :: polygon

text \<open>
  The attributes of the class. \<open>None\<close> is Python's \<open>None\<close>. \<open>roi\<close> is \<open>[x, y, w, h]\<close>; its
  entries are not negative where the program is called (the caller clips the selection).
  \<open>img_median\<close> is assigned together with \<open>img_extended\<close> and read only after it.
  The constructor does not create \<open>dist_map\<close>, \<open>roi\<close> and \<open>roi_mask\<close>; \<open>open_image\<close> does,
  and they are read only where an image has been opened or after they were assigned, so
  their values before that do not matter.
\<close>

record VsaProcessor =
  img :: "nat grid option"
  img_extended :: "nat grid option"
  img_median :: real
  paper_mask :: "8 word grid option"
  dist_map :: "16 word grid option"
  spot_mask :: "8 word grid option"
  spot_polygons :: "polygon list"
  spot_polygon_properties :: "poly_props list"
  roi :: "nat \<times> nat \<times> nat \<times> nat"
  roi_mask :: "8 word grid option"
  roi_polygons :: "polygon list"
  win_size :: nat

text \<open>The constructor: \<open>win_size\<close> is 100, and no method assigns it again.\<close>

definition VsaProcessor_init :: VsaProcessor where
  "VsaProcessor_init =
     \<lparr>img = None, img_extended = None, img_median = 0, paper_mask = None, dist_map = None,
      spot_mask = None, spot_polygons = [], spot_polygon_properties = [], roi = (0, 0, 0, 0),
      roi_mask = None, roi_polygons = [], win_size = 100\<rparr>"

definition have_img :: "VsaProcessor \<Rightarrow> bool" where
  "have_img self = (case img self of None \<Rightarrow> False | Some im \<Rightarrow> im \<noteq> [])"

text \<open>
  \<open>_vectorize_spots\<close>: the polygon list is replaced by the external contours of the spot
  mask. Without a spot mask OpenCV raises.
\<close>

definition vectorize_spots :: "cv2 \<Rightarrow> VsaProcessor \<Rightarrow> py_error + VsaProcessor" where
  "vectorize_spots cv self =
     (case spot_mask self of
        None \<Rightarrow> Inl TypeError
      | Some m \<Rightarrow> Inr (self\<lparr>spot_polygons := findContours cv m\<rparr>))"

subsection \<open>Thresholding one rectangle\<close>

text \<open>
  \<open>_find_spots_in_rect\<close>. The result is the pair \<open>(polygons, roi_mask)\<close> that the source
  returns, with the updated object. The median of the rectangle and \<open>median_loc\<close> are
  computed by the source for the \<open>print\<close> only and are left out. The four rejections
  are tested in the order of the source; each returns \<open>(contours, None)\<close> with
  \<open>contours = []\<close>.
\<close>

definition find_spots_in_rect ::
  "cv2 \<Rightarrow> VsaProcessor \<Rightarrow> nat \<times> nat \<times> nat \<times> nat \<Rightarrow> int \<Rightarrow> real \<Rightarrow> real \<Rightarrow>
     py_error + ((polygon list \<times> 8 word grid option) \<times> VsaProcessor)" where
  "find_spots_in_rect cv self rect threshold_adjustment min_range min_dist_from_median =
     (let self = self\<lparr>roi := rect, roi_mask := None, roi_polygons := []\<rparr>;
          contours = [];
          (x, y, w, h) = rect
      in case img_extended self of
           None \<Rightarrow> Inl TypeError
         | Some ext \<Rightarrow>
             let roi_img = slice2 ext y h x w;
                 tmp_list = sort (concat roi_img)
             in if tmp_list = [] then Inl IndexError
                else
                  let min_val = hd tmp_list;
                      max_val = last tmp_list;
                      roi_range = int max_val - int min_val;
                      triangle_weight = 0;
                      thresh = py_int ((1 - triangle_weight) * thresh_otsu cv roi_img
                                        + triangle_weight * thresh_triangle cv roi_img);
                      thresh = thresh + threshold_adjustment;
                      thresh = max 1 (min thresh 255);
                      mask = threshold_binary roi_img thresh
                  in if \<not> np_any mask then Inr ((contours, None), self)
                     else if real_of_int thresh < img_median self then Inr ((contours, None), self)
                     else if real_of_int roi_range < min_range then Inr ((contours, None), self)
                     else if real_of_int thresh - img_median self < min_dist_from_median
                       then Inr ((contours, None), self)
                     else
                       let self = self\<lparr>roi_mask := Some mask\<rparr>;
                           polygons = map (map (\<lambda>p. (fst p + int x, snd p + int y)))
                                          (findContours cv mask)
                       in Inr ((polygons, Some mask), self))"

definition segment_spots_in_roi ::
  "cv2 \<Rightarrow> VsaProcessor \<Rightarrow> nat \<times> nat \<times> nat \<times> nat \<Rightarrow> int \<Rightarrow> real \<Rightarrow> real \<Rightarrow>
     py_error + VsaProcessor" where
  "segment_spots_in_roi cv self rect threshold_adjustment min_range min_dist_from_median =
     (if \<not> have_img self then Inr self
      else
        case find_spots_in_rect cv self rect threshold_adjustment min_range min_dist_from_median of
          Inl e \<Rightarrow> Inl e
        | Inr ((polygons, _), self) \<Rightarrow> Inr (self\<lparr>roi_polygons := polygons\<rparr>))"

subsection \<open>Whole-image segmentation\<close>

text \<open>
  The tiles \<open>[x1, y1, x2, y2]\<close> of \<open>segment_spots\<close>, row by row.
  \<open>math.ceil(w / win_size)\<close> is the ceiling of the quotient.
\<close>

definition make_tiles :: "nat \<Rightarrow> nat \<Rightarrow> nat \<Rightarrow> (nat \<times> nat \<times> nat \<times> nat) list" where
  "make_tiles h w win =
     (let x_count = nat \<lceil>real w / real win\<rceil>;
          y_count = nat \<lceil>real h / real win\<rceil>
      in concat (map (\<lambda>y_idx. map (\<lambda>x_idx.
           let x1 = x_idx * win;
               y1 = y_idx * win;
               x2 = min (x1 + win) w;
               y2 = min (y1 + win) h
           in (x1, y1, x2, y2)) [0..<x_count]) [0..<y_count]))"

text \<open>
  The second loop of \<open>segment_spots\<close> writes into \<open>self.spot_mask\<close>, which is a float64
  array there (\<open>np.zeros((h, w))\<close>). An accepted tile assigns its mask; a rejected tile
  assigns \<open>None\<close>, which NumPy stores in a float array as \<open>nan\<close>.
\<close>

definition assign_tile ::
  "np_float grid \<Rightarrow> nat \<Rightarrow> nat \<Rightarrow> nat \<Rightarrow> nat \<Rightarrow> 8 word grid option \<Rightarrow> py_error + np_float grid" where
  "assign_tile a y1 y2 x1 x2 tile_mask =
     (case tile_mask of
        None \<Rightarrow> Inr (fill_slice a y1 y2 x1 x2 NaN)
      | Some b \<Rightarrow> assign_slice a y1 y2 x1 x2 (map (map (\<lambda>v. F (real (unat v)))) b))"

fun stitch_tiles ::
  "cv2 \<Rightarrow> VsaProcessor \<Rightarrow> np_float grid \<Rightarrow> (nat \<times> nat \<times> nat \<times> nat) list \<Rightarrow> int \<Rightarrow> real \<Rightarrow> real \<Rightarrow>
     py_error + (np_float grid \<times> VsaProcessor)" where
  "stitch_tiles cv self a [] threshold_adjustment min_range min_dist_from_median = Inr (a, self)"
| "stitch_tiles cv self a (tile # tiles) threshold_adjustment min_range min_dist_from_median =
     (case tile of (x1, y1, x2, y2) \<Rightarrow>
        (case find_spots_in_rect cv self (x1, y1, x2 - x1, y2 - y1)
                threshold_adjustment min_range min_dist_from_median of
           Inl e \<Rightarrow> Inl e
         | Inr ((_, tile_mask), self) \<Rightarrow>
             (case assign_tile a y1 y2 x1 x2 tile_mask of
                Inl e \<Rightarrow> Inl e
              | Inr a \<Rightarrow>
                  stitch_tiles cv self a tiles threshold_adjustment min_range min_dist_from_median)))"

text \<open>
  \<open>astype(np.uint8)\<close> of a float64 value. The program holds \<open>0.0\<close>, \<open>255.0\<close> and \<open>nan\<close> there.
  The cast of \<open>nan\<close> to an integer is not defined by C; NumPy on x86-64 and on AArch64
  gives 0 (with a \<open>RuntimeWarning\<close>), and that value is taken here.
\<close>

definition astype_uint8 :: "np_float \<Rightarrow> 8 word" where
  "astype_uint8 v = (case v of F r \<Rightarrow> word_of_int \<lfloor>r\<rfloor> | _ \<Rightarrow> 0)"

text \<open>
  \<open>np.where(self.paper_mask==0, 0, self.spot_mask)\<close>. When \<open>paper_mask\<close> is \<open>None\<close> the
  comparison is the scalar \<open>False\<close> and the spot mask comes back unchanged.
\<close>

definition where_paper ::
  "8 word grid option \<Rightarrow> 8 word grid \<Rightarrow> py_error + 8 word grid" where
  "where_paper pm m =
     (case pm of
        None \<Rightarrow> Inr m
      | Some p \<Rightarrow>
          if same_shape p m then Inr (imap2 (\<lambda>y x v. if p ! y ! x = 0 then 0 else v) m)
          else Inl ValueError)"

definition segment_spots ::
  "cv2 \<Rightarrow> VsaProcessor \<Rightarrow> int \<Rightarrow> real \<Rightarrow> real \<Rightarrow> py_error + VsaProcessor" where
  "segment_spots cv self threshold_adjustment min_range min_dist_from_median =
     (let self = self\<lparr>roi_polygons := [], spot_polygons := []\<rparr>
      in if \<not> have_img self then Inr self
         else
           case img self of
             None \<Rightarrow> Inr self
           | Some im \<Rightarrow>
               let h = length im;
                   w = length (hd im)
               in if win_size self = 0 then Inl ZeroDivisionError
                  else
                    let tiles = make_tiles h w (win_size self)
                    in case stitch_tiles cv self (replicate h (replicate w (F 0))) tiles
                              threshold_adjustment min_range min_dist_from_median of
                         Inl e \<Rightarrow> Inl e
                       | Inr (a, self) \<Rightarrow>
                           (case where_paper (paper_mask self) (map (map astype_uint8) a) of
                              Inl e \<Rightarrow> Inl e
                            | Inr m \<Rightarrow> vectorize_spots cv (self\<lparr>spot_mask := Some m\<rparr>)))"

subsection \<open>The other operations on the spot mask\<close>

text \<open>
  \<open>save_roi_spots\<close>: the mask of the last accepted rectangle is or-ed into the window
  \<open>[y:y+h, x:x+w]\<close> of the spot mask.
\<close>

definition save_roi_spots :: "cv2 \<Rightarrow> VsaProcessor \<Rightarrow> py_error + VsaProcessor" where
  "save_roi_spots cv self =
     (if length (roi_polygons self) = 0 then Inr self
      else
        case roi self of (x, y, w, h) \<Rightarrow>
          (case (spot_mask self, roi_mask self) of
             (Some m, Some rm) \<Rightarrow>
               if same_shape (slice2 m y h x w) rm
               then vectorize_spots cv (self\<lparr>spot_mask := Some
                      (imap2 (\<lambda>r c v. if in_window y (y + h) x (x + w) r c
                                       then v OR rm ! (r - y) ! (c - x) else v) m)\<rparr>)
               else Inl ValueError
           | _ \<Rightarrow> Inl TypeError))"

definition clear_poly_selection :: "cv2 \<Rightarrow> VsaProcessor \<Rightarrow> polygon \<Rightarrow> py_error + VsaProcessor" where
  "clear_poly_selection cv self polygon =
     (case img self of
        None \<Rightarrow> Inr self
      | Some _ \<Rightarrow>
          (case spot_mask self of
             None \<Rightarrow> Inl TypeError
           | Some m \<Rightarrow> vectorize_spots cv (self\<lparr>spot_mask := Some (drawContours cv m [polygon] 0)\<rparr>)))"

definition fill_poly_selection :: "cv2 \<Rightarrow> VsaProcessor \<Rightarrow> polygon \<Rightarrow> py_error + VsaProcessor" where
  "fill_poly_selection cv self polygon =
     (case img self of
        None \<Rightarrow> Inr self
      | Some _ \<Rightarrow>
          (case spot_mask self of
             None \<Rightarrow> Inl TypeError
           | Some m \<Rightarrow> vectorize_spots cv (self\<lparr>spot_mask := Some (drawContours cv m [polygon] 255)\<rparr>)))"

text \<open>
  \<open>set_spot_polygons\<close> returns \<open>False\<close> without an image and \<open>None\<close> otherwise; only the
  object is kept here. The polygon list is stored as given and the mask is drawn from it.
\<close>

definition set_spot_polygons :: "cv2 \<Rightarrow> VsaProcessor \<Rightarrow> polygon list \<Rightarrow> VsaProcessor" where
  "set_spot_polygons cv self polygons =
     (case img self of
        None \<Rightarrow> self
      | Some im \<Rightarrow>
          self\<lparr>spot_polygons := polygons,
               spot_mask := Some (drawContours cv (map (map (\<lambda>_. 0)) im) polygons 255)\<rparr>)"

subsection \<open>Measuring the spots\<close>









subsection \<open>An instance of the OpenCV parameters\<close>

text \<open>
  The properties below hold for every value of the OpenCV parameters. To run the model
  on concrete inputs, \<open>cv_example\<close> gives them simple values: it fills the bounding box
  of the points of each contour, which is what OpenCV paints for an axis-aligned
  rectangle; as contours it returns every foreground pixel as a contour of one point,
  which is what OpenCV returns when the foreground pixels are isolated; and both
  thresholds are the smallest sample of the region, which is Otsu's threshold as OpenCV
  computes it when the region has two grey levels.
\<close>

definition box_filled :: "polygon list \<Rightarrow> nat \<Rightarrow> nat \<Rightarrow> bool" where
  "box_filled cs x y =
     list_ex (\<lambda>c. list_ex (\<lambda>p. fst p \<le> int x) c \<and> list_ex (\<lambda>p. int x \<le> fst p) c \<and>
                   list_ex (\<lambda>p. snd p \<le> int y) c \<and> list_ex (\<lambda>p. int y \<le> snd p) c) cs"

definition pixel_contours :: "8 word grid \<Rightarrow> polygon list" where
  "pixel_contours m =
     concat (map (\<lambda>(y, row). map (\<lambda>(x, v). [(int x, int y)])
                                  (filter (\<lambda>(x, v). v \<noteq> 0) (enumerate 0 row)))
                 (enumerate 0 m))"

definition smallest_sample :: "nat grid \<Rightarrow> real" where
  "smallest_sample im = real (fold min (concat im) (hd (concat im)))"

definition cv_example :: cv2 where
  "cv_example =
     \<lparr>findContours = pixel_contours, filled = box_filled,
      thresh_otsu = smallest_sample, thresh_triangle = smallest_sample\<rparr>"

section \<open>Auxiliary definitions for the proofs\<close>

text \<open>
  The sum of the shoelace terms along a list of points, and around the closed polygon.
\<close>

fun path_sum :: "polygon \<Rightarrow> real" where
  "path_sum (p # q # ps) = shoelace_term p q + path_sum (q # ps)"
| "path_sum ps = 0"

definition cyc_sum :: "polygon \<Rightarrow> real" where
  "cyc_sum ps = (if ps = [] then 0 else path_sum ps + shoelace_term (last ps) (hd ps))"

text \<open>
  The determinant of the normal equations over the reals, in the words of the
  specification: \<open>a1*b2 - a2*b1\<close> with \<open>a1 = sum x^3\<close>, \<open>b1 = sum x^2\<close>, \<open>a2 = sum x^4\<close>,
  \<open>b2 = sum x^3\<close>.
\<close>

definition exact_det :: "(real \<times> real) list \<Rightarrow> real" where
  "exact_det points =
     (let a1 = sum_list (map (\<lambda>p. fst p ^ 3) points);
          b1 = sum_list (map (\<lambda>p. fst p ^ 2) points);
          a2 = sum_list (map (\<lambda>p. fst p ^ 4) points);
          b2 = sum_list (map (\<lambda>p. fst p ^ 3) points)
      in a1 * b2 - a2 * b1)"

text \<open>
  An instance of the parameter \<open>pw\<close> for the examples: the correctly rounded power. On
  the arguments of the examples below it is the value that Python gives.
\<close>

definition pow_rounded :: "real \<Rightarrow> nat \<Rightarrow> real" where
  "pow_rounded x n = fl (x ^ n)"

text \<open>
  A tile \<open>[x1, y1, x2, y2]\<close> covers the pixel in column \<open>x\<close> and row \<open>y\<close>; and the value
  that the tile assigns to that pixel of the float mask in \<open>segment_spots\<close>.
\<close>

definition covers :: "nat \<times> nat \<times> nat \<times> nat \<Rightarrow> nat \<Rightarrow> nat \<Rightarrow> bool" where
  "covers tile x y = (case tile of (x1, y1, x2, y2) \<Rightarrow> in_window y1 y2 x1 x2 y x)"

definition tile_value ::
  "cv2 \<Rightarrow> VsaProcessor \<Rightarrow> int \<Rightarrow> real \<Rightarrow> real \<Rightarrow> nat \<times> nat \<times> nat \<times> nat \<Rightarrow> nat \<Rightarrow> nat \<Rightarrow> np_float" where
  "tile_value cv self ta mr md tile x y =
     (case tile of (x1, y1, x2, y2) \<Rightarrow>
        (case find_spots_in_rect cv self (x1, y1, x2 - x1, y2 - y1) ta mr md of
           Inr ((_, Some rm), _) \<Rightarrow> F (real (unat (rm ! (y - y1) ! (x - x1))))
         | _ \<Rightarrow> NaN))"

text \<open>Inputs for the examples: two squares and a processor with an image of 2 x 2 pixels.\<close>

definition unit_square :: polygon where
  "unit_square = [(0, 0), (1, 0), (1, 1), (0, 1)]"



definition example_processor :: VsaProcessor where
  "example_processor =
     VsaProcessor_init\<lparr>img := Some [[10, 10], [10, 10]],
       paper_mask := Some [[255, 255], [255, 255]], dist_map := Some [[1, 3], [1, 3]],
       spot_mask := Some [[255, 255], [255, 255]],
       spot_polygons := [unit_square]\<rparr>"


text \<open>
  The tile of side \<open>win\<close> that holds the pixel in column \<open>x\<close> and row \<open>y\<close> of an image of
  \<open>h\<close> rows and \<open>w\<close> columns: a square window on the grid of step \<open>win\<close>, clipped to the
  image. And the pixel that \<open>_find_spots_in_rect\<close>, run on a tile, gives for \<open>(x, y)\<close>: the
  pixel of the tile mask when the tile is accepted, background when it is rejected.
\<close>

definition tile_of :: "nat \<Rightarrow> nat \<Rightarrow> nat \<Rightarrow> nat \<Rightarrow> nat \<Rightarrow> nat \<times> nat \<times> nat \<times> nat" where
  "tile_of h w win x y =
     ((x div win) * win, (y div win) * win,
      min ((x div win) * win + win) w, min ((y div win) * win + win) h)"

definition tile_pixel ::
  "cv2 \<Rightarrow> VsaProcessor \<Rightarrow> int \<Rightarrow> real \<Rightarrow> real \<Rightarrow> nat \<times> nat \<times> nat \<times> nat \<Rightarrow> nat \<Rightarrow> nat \<Rightarrow> 8 word" where
  "tile_pixel cv self ta mr md tile x y =
     (case tile of (x1, y1, x2, y2) \<Rightarrow>
        (case find_spots_in_rect cv self (x1, y1, x2 - x1, y2 - y1) ta mr md of
           Inr ((_, Some tile_mask), _) \<Rightarrow> tile_mask ! (y - y1) ! (x - x1)
         | _ \<Rightarrow> 0))"

text \<open>
  The spot mask is within the paper mask: every pixel that is foreground in the spot mask
  is foreground in the paper mask. Without a paper mask this asks for a spot mask with no
  foreground.
\<close>

definition mask_subset :: "8 word grid \<Rightarrow> 8 word grid \<Rightarrow> bool" where
  "mask_subset m p \<longleftrightarrow> list_all2 (list_all2 (\<lambda>v q. v \<noteq> 0 \<longrightarrow> q \<noteq> 0)) m p"

definition spot_in_paper :: "VsaProcessor \<Rightarrow> bool" where
  "spot_in_paper self =
     (case spot_mask self of
        None \<Rightarrow> True
      | Some m \<Rightarrow> (case paper_mask self of None \<Rightarrow> \<not> np_any m | Some p \<Rightarrow> mask_subset m p))"

text \<open>
  What \<open>extend_image\<close> leaves behind: the extended image has the shape of the paper mask,
  and outside the paper mask its pixels are the median (cast to the type of the image),
  so not above \<open>img_median\<close>. And the mask of the last rectangle has no foreground outside
  the paper mask.
\<close>

definition extended_consistent :: "VsaProcessor \<Rightarrow> bool" where
  "extended_consistent self =
     (case (img_extended self, paper_mask self) of
        (Some ext, Some p) \<Rightarrow>
          map length ext = map length p \<and>
          (\<forall>r<length ext. \<forall>c<length (ext ! r).
             p ! r ! c = 0 \<longrightarrow> real (ext ! r ! c) \<le> img_median self)
      | _ \<Rightarrow> False)"

definition roi_within_paper :: "VsaProcessor \<Rightarrow> bool" where
  "roi_within_paper self =
     (case (roi self, roi_mask self, paper_mask self) of
        ((x, y, w, h), Some rm, Some p) \<Rightarrow>
          (\<forall>r<length rm. \<forall>c<length (rm ! r). rm ! r ! c \<noteq> 0 \<longrightarrow> p ! (y + r) ! (x + c) \<noteq> 0)
      | _ \<Rightarrow> True)"

text \<open>
  Probing a rectangle and committing it, as the two buttons of the program do:
  \<open>segment_spots_in_roi\<close> followed by \<open>save_roi_spots\<close>.
\<close>

definition roi_commit ::
  "cv2 \<Rightarrow> VsaProcessor \<Rightarrow> nat \<times> nat \<times> nat \<times> nat \<Rightarrow> int \<Rightarrow> real \<Rightarrow> real \<Rightarrow>
     py_error + VsaProcessor" where
  "roi_commit cv self rect threshold_adjustment min_range min_dist_from_median =
     (case segment_spots_in_roi cv self rect threshold_adjustment min_range min_dist_from_median of
        Inl e \<Rightarrow> Inl e
      | Inr self \<Rightarrow> save_roi_spots cv self)"

text \<open>\<open>fill_poly_selection\<close> followed by \<open>clear_poly_selection\<close> with the same polygon.\<close>

definition fill_then_clear :: "cv2 \<Rightarrow> VsaProcessor \<Rightarrow> polygon \<Rightarrow> py_error + VsaProcessor" where
  "fill_then_clear cv self polygon =
     (case fill_poly_selection cv self polygon of
        Inl e \<Rightarrow> Inl e
      | Inr self \<Rightarrow> clear_poly_selection cv self polygon)"

text \<open>
  More inputs for the examples: a degenerate triangle on the top row of the image; a
  processor whose paper is the top row of an image of 2 x 2 pixels, after \<open>open_image\<close>
  and \<open>segment_paper\<close>; and a processor with an image of 2 rows and 3 columns, one bright
  pixel, and windows of side 2.
\<close>

definition top_row :: polygon where
  "top_row = [(0, 0), (1, 0), (1, 0)]"

definition half_paper_processor :: VsaProcessor where
  "half_paper_processor =
     VsaProcessor_init\<lparr>img := Some [[10, 10], [3, 3]], img_extended := Some [[10, 10], [10, 10]],
       img_median := 10, paper_mask := Some [[255, 255], [0, 0]],
       dist_map := Some [[1, 1], [0, 0]], spot_mask := Some [[0, 0], [0, 0]]\<rparr>"

definition tiled_processor :: VsaProcessor where
  "tiled_processor =
     VsaProcessor_init\<lparr>img := Some [[10, 200, 10], [10, 10, 10]],
       img_extended := Some [[10, 200, 10], [10, 10, 10]], img_median := 10,
       paper_mask := Some [[255, 255, 255], [255, 255, 0]],
       dist_map := Some [[1, 1, 1], [1, 1, 0]], spot_mask := Some [[0, 0, 0], [0, 0, 0]],
       win_size := 2\<rparr>"

section \<open>Properties of polygon_tools.py\<close>

subsection \<open>The shoelace sum as a sum around the cycle\<close>

lemma shoelace_loop_path: "shoelace_loop ps acc = acc + path_sum ps"
  by (induction ps acc rule: shoelace_loop.induct) auto

lemma shoelace_term_swap: "shoelace_term q p = - shoelace_term p q"
  by (simp add: shoelace_term_def)

lemma path_sum_snoc: "path_sum (ps @ [u, v]) = path_sum (ps @ [u]) + shoelace_term u v"
  by (induction ps rule: path_sum.induct) auto

lemma path_sum_snoc1:
  "ps \<noteq> [] \<Longrightarrow> path_sum (ps @ [v]) = path_sum ps + shoelace_term (last ps) v"
  by (induction ps rule: path_sum.induct) auto

text \<open>
  The test \<open>first \<noteq> last\<close> of the source only skips a closing term that is zero, and
  the cyclic sum of fewer than three points is zero: the signed area is half the cyclic
  sum for every list.
\<close>

lemma signed_area_cyc: "polygon_signed_area ps = cyc_sum ps / 2"
proof (cases "length ps < 3")
  case True
  then consider "ps = []" | a where "ps = [a]" | a b where "ps = [a, b]"
    by (cases ps; cases "tl ps"; cases "tl (tl ps)") auto
  then show ?thesis
    by cases (auto simp: polygon_signed_area_def cyc_sum_def shoelace_term_def)
next
  case False
  then have ne: "ps \<noteq> []" by auto
  have "fst (hd ps) = fst (last ps) \<and> snd (hd ps) = snd (last ps) \<Longrightarrow>
          shoelace_term (last ps) (hd ps) = 0"
    by (simp add: shoelace_term_def)
  with False ne show ?thesis
    by (auto simp: polygon_signed_area_def cyc_sum_def shoelace_loop_path Let_def)
qed

lemma cyc_sum_rotate1: "cyc_sum (rotate1 ps) = cyc_sum ps"
proof (cases ps)
  case Nil
  then show ?thesis by (simp add: cyc_sum_def)
next
  case (Cons a xs)
  show ?thesis
  proof (cases xs)
    case Nil
    with Cons show ?thesis by (simp add: cyc_sum_def)
  next
    case (Cons b ys)
    have "path_sum ((b # ys) @ [a]) = path_sum (b # ys) + shoelace_term (last (b # ys)) a"
      by (rule path_sum_snoc1) simp
    with Cons \<open>ps = a # xs\<close> show ?thesis
      by (simp add: cyc_sum_def)
  qed
qed

lemma cyc_sum_rotate: "cyc_sum (rotate n ps) = cyc_sum ps"
  by (induction n) (simp_all add: cyc_sum_rotate1)

lemma path_sum_rev: "path_sum (rev ps) = - path_sum ps"
proof (induction ps rule: path_sum.induct)
  case (1 p q ps)
  then show ?case
    using path_sum_snoc [of "rev ps" q p] shoelace_term_swap [of p q] by simp
qed auto

lemma cyc_sum_rev: "cyc_sum (rev ps) = - cyc_sum ps"
  using shoelace_term_swap [of "last ps" "hd ps"]
  by (cases "ps = []") (simp_all add: cyc_sum_def path_sum_rev hd_rev last_rev)

lemma polygon_area_abs_signed: "polygon_area pt_list = \<bar>polygon_signed_area pt_list\<bar>"
  by (simp add: polygon_area_def Let_def abs_if)

lemma polygon_area_cyc: "polygon_area ps = \<bar>cyc_sum ps\<bar> / 2"
  by (simp add: polygon_area_abs_signed signed_area_cyc)

text \<open>
  Claim C9. For every point list, the unsigned area \<open>polygon_area\<close> does not change when
  the list is rotated cyclically by any number of places (another starting vertex) nor
  when it is reversed (the other direction of traversal).
\<close>

theorem polygon_area_rotate_rev:
  "polygon_area (rotate n pt_list) = polygon_area pt_list \<and>
   polygon_area (rev pt_list) = polygon_area pt_list"
  by (simp add: polygon_area_cyc cyc_sum_rotate cyc_sum_rev)

subsection \<open>Circularity\<close>

lemma edge_length_h: "edge_length (x1, y) (x2, y) = \<bar>real_of_int (x2 - x1)\<bar>"
  by (simp add: edge_length_def)

lemma edge_length_v: "edge_length (x, y1) (x, y2) = \<bar>real_of_int (y2 - y1)\<bar>"
  by (simp add: edge_length_def)

lemma square_perimeter:
  "0 < s \<Longrightarrow>
     polygon_perimeter [(x, y), (x + s, y), (x + s, y + s), (x, y + s)] = Inr (4 * real_of_int s)"
  by (simp add: polygon_perimeter_def edge_length_h edge_length_v)

lemma square_perimeter_rev:
  "0 < s \<Longrightarrow>
     polygon_perimeter [(x, y + s), (x + s, y + s), (x + s, y), (x, y)] = Inr (4 * real_of_int s)"
  by (simp add: polygon_perimeter_def edge_length_h edge_length_v)

lemma square_signed_area:
  "polygon_signed_area [(x, y), (x + s, y), (x + s, y + s), (x, y + s)] =
     - (real_of_int s * real_of_int s)"
  by (simp add: polygon_signed_area_def shoelace_term_def Let_def algebra_simps)

lemma square_signed_area_rev:
  "polygon_signed_area [(x, y + s), (x + s, y + s), (x + s, y), (x, y)] =
     real_of_int s * real_of_int s"
  by (simp add: polygon_signed_area_def shoelace_term_def Let_def algebra_simps)

lemma square_area:
  "polygon_area [(x, y), (x + s, y), (x + s, y + s), (x, y + s)] = real_of_int s * real_of_int s"
  by (simp add: polygon_area_abs_signed square_signed_area abs_mult)

lemma square_area_rev:
  "polygon_area [(x, y + s), (x + s, y + s), (x + s, y), (x, y)] = real_of_int s * real_of_int s"
  by (simp add: polygon_area_abs_signed square_signed_area_rev abs_mult)

lemma circularity_unfold:
  "circularity polygon =
     (case polygon_perimeter polygon of
        Inl e \<Rightarrow> Inl e
      | Inr L \<Rightarrow> Inr (if L \<le> 0 then 0 else 4 * pi * polygon_area polygon / L\<^sup>2))"
  by (simp add: circularity_def Let_def power2_eq_square split: sum.splits)

lemma square_circularity:
  assumes "0 < s"
  shows "circularity [(x, y), (x + s, y), (x + s, y + s), (x, y + s)] = Inr (pi / 4)"
    and "circularity [(x, y + s), (x + s, y + s), (x + s, y), (x, y)] = Inr (pi / 4)"
  using assms
  by (simp_all add: circularity_def square_perimeter square_perimeter_rev
        square_area square_area_rev Let_def)

text \<open>
  Claim C7. For every point list on which the perimeter is defined, \<open>circularity\<close> is
  \<open>4 pi Area / Perimeter^2\<close>, and 0 when the perimeter is not positive (on the empty list
  the perimeter raises \<open>IndexError\<close>, and so does \<open>circularity\<close>). For every axis-aligned
  square of side \<open>s > 0\<close>, given by its four corners in either direction of traversal,
  \<open>circularity\<close> is \<open>pi / 4\<close>, whatever \<open>s\<close> and the position of the square.
\<close>

theorem circularity_formula_and_square:
  "circularity polygon =
     (case polygon_perimeter polygon of
        Inl e \<Rightarrow> Inl e
      | Inr L \<Rightarrow> Inr (if L \<le> 0 then 0 else 4 * pi * polygon_area polygon / L\<^sup>2))
   \<and> (0 < s \<longrightarrow>
        circularity [(x, y), (x + s, y), (x + s, y + s), (x, y + s)] = Inr (pi / 4) \<and>
        circularity [(x, y + s), (x + s, y + s), (x + s, y), (x, y)] = Inr (pi / 4))"
  using circularity_unfold [of polygon] square_circularity [of s x y] by simp

theorem circularity_formula_and_square_witness:
  "(0::int) < 100 \<and>
   circularity [(0, 0), (100, 0), (100, 100), (0, 100)] = Inr (pi / 4) \<and>
   circularity [(0, 100), (100, 100), (100, 0), (0, 0)] = Inr (pi / 4) \<and>
   circularity [] = Inl IndexError \<and> circularity [(5, 5)] = Inr 0"
  using circularity_formula_and_square [of "[]" 100 0 0]
        circularity_formula_and_square [of "[(5, 5)]" 100 0 0]
  by (simp add: polygon_perimeter_def edge_length_def)

section \<open>Properties of area_volume_map.py\<close>

lemma linear_sums_eq:
  "linear_sums points (a, b) =
     (a + (\<Sum>p\<leftarrow>points. (fst p)\<^sup>2), b + (\<Sum>p\<leftarrow>points. fst p * snd p))"
  by (induction points arbitrary: a b) (simp_all add: algebra_simps)

lemma compute_linear_model_eq:
  "compute_linear_model self points =
     (if (\<Sum>p\<leftarrow>points. (fst p)\<^sup>2) = 0 then Inl ZeroDivisionError
      else Inr (self\<lparr>c1 := (\<Sum>p\<leftarrow>points. fst p * snd p) / (\<Sum>p\<leftarrow>points. (fst p)\<^sup>2),
                     c2 := 0\<rparr>))"
  by (simp add: compute_linear_model_def linear_sums_eq py_div_def)

lemma compute_model_False_iff:
  "(compute_model pw self points = Inr (False, r)) \<longleftrightarrow>
     (points = [] \<and> r = self\<lparr>c1 := 0, c2 := 0\<rparr>)"
  by (auto simp: compute_model_def Let_def split: sum.splits)

lemma compute_model_small:
  assumes "points \<noteq> []" "length points \<le> 3"
  shows "compute_model pw self points =
     (if (\<Sum>p\<leftarrow>points. (fst p)\<^sup>2) = 0 then Inl ZeroDivisionError
      else Inr (True, self\<lparr>c1 := (\<Sum>p\<leftarrow>points. fst p * snd p) / (\<Sum>p\<leftarrow>points. (fst p)\<^sup>2),
                           c2 := 0\<rparr>))"
  using assms by (simp add: compute_model_def compute_linear_model_eq Let_def)

text \<open>
  Claim C6, as stated, fails: the single calibration point \<open>(0, 5)\<close> is a non-empty list of
  at most three points, the sum of the squared areas is zero, and \<open>compute_model\<close> does
  not return success but raises \<open>ZeroDivisionError\<close> at \<open>sum_xy/sum_xx\<close>.
\<close>

theorem compute_model_counterexample:
  "[(0::real, 5::real)] \<noteq> [] \<and> length [(0::real, 5::real)] \<le> 3 \<and>
   compute_model pow_rounded \<lparr>c1 = 0, c2 = 0\<rparr> [(0, 5)] = Inl ZeroDivisionError"
  by (simp add: compute_model_def compute_linear_model_def py_div_def)

text \<open>
  Claim C6, amended. \<open>compute_model\<close> returns \<open>False\<close> exactly when the list of points is
  empty, and then \<open>c1 = c2 = 0\<close>. For every non-empty list of at most three points whose
  squared areas do not sum to zero it returns \<open>True\<close> with \<open>c2 = 0\<close> and
  \<open>c1 = sum (A * V) / sum (A^2)\<close>; when they sum to zero the division is carried out
  unguarded and raises \<open>ZeroDivisionError\<close>. In particular \<open>compute_model([(1, 2)])\<close> gives
  \<open>c1 = 2\<close> and \<open>c2 = 0\<close>. (The parameter \<open>pw\<close> is used by the quadratic fit only.)
\<close>

theorem compute_model_linear:
  "(compute_model pw self points = Inr (False, r) \<longleftrightarrow>
      points = [] \<and> r = self\<lparr>c1 := 0, c2 := 0\<rparr>) \<and>
   (points \<noteq> [] \<and> length points \<le> 3 \<and> (\<Sum>p\<leftarrow>points. (fst p)\<^sup>2) \<noteq> 0 \<longrightarrow>
      compute_model pw self points =
        Inr (True, self\<lparr>c1 := (\<Sum>p\<leftarrow>points. fst p * snd p) / (\<Sum>p\<leftarrow>points. (fst p)\<^sup>2),
                        c2 := 0\<rparr>)) \<and>
   (points \<noteq> [] \<and> length points \<le> 3 \<and> (\<Sum>p\<leftarrow>points. (fst p)\<^sup>2) = 0 \<longrightarrow>
      compute_model pw self points = Inl ZeroDivisionError) \<and>
   compute_model pw self [(1, 2)] = Inr (True, self\<lparr>c1 := 2, c2 := 0\<rparr>)"
  using compute_model_False_iff [of pw self points r] compute_model_small [of points pw self]
        compute_model_small [of "[(1, 2)]" pw self]
  by simp

theorem compute_model_linear_witness:
  "compute_model pow_rounded \<lparr>c1 = 7, c2 = 9\<rparr> [] = Inr (False, \<lparr>c1 = 0, c2 = 0\<rparr>) \<and>
   compute_model pow_rounded \<lparr>c1 = 7, c2 = 9\<rparr> [(1, 2), (2, 3)] =
     Inr (True, \<lparr>c1 = 8 / 5, c2 = 0\<rparr>) \<and>
   compute_model pow_rounded \<lparr>c1 = 7, c2 = 9\<rparr> [(0, 1), (0, 3)] = Inl ZeroDivisionError"
  using compute_model_linear [of pow_rounded "\<lparr>c1 = 7, c2 = 9\<rparr>" "[]" "\<lparr>c1 = 0, c2 = 0\<rparr>"]
        compute_model_linear [of pow_rounded "\<lparr>c1 = 7, c2 = 9\<rparr>" "[(1, 2), (2, 3)]"]
        compute_model_linear [of pow_rounded "\<lparr>c1 = 7, c2 = 9\<rparr>" "[(0, 1), (0, 3)]"]
  by simp

subsection \<open>The quadratic fit\<close>

lemma fl_0 [simp]: "fl 0 = 0"
  by (simp add: fl_def)

text \<open>
  \<open>exponent2\<close> is the exponent of the binade of its argument, so \<open>fl x\<close> is determined by
  the binade of \<open>x\<close> and the rounding of its significand to an integer; and the integers
  below \<open>2^53\<close> are floats.
\<close>

lemma bitlen_eqI:
  assumes "2 ^ k \<le> a" "a < 2 ^ Suc k"
  shows "bitlen a = int k + 1"
proof -
  from assms(1) have pos: "0 < a"
    by (metis less_le_trans zero_less_numeral zero_less_power)
  from bitlen_bounds [OF pos]
  have lo: "2 ^ nat (bitlen a - 1) \<le> a" and hi: "a < 2 ^ nat (bitlen a)" by simp_all
  from lo assms(2) have lt1: "(2::int) ^ nat (bitlen a - 1) < 2 ^ Suc k"
    by (rule le_less_trans)
  from assms(1) hi have lt2: "(2::int) ^ k < 2 ^ nat (bitlen a)"
    by (rule le_less_trans)
  have "nat (bitlen a - 1) < Suc k"
    by (rule power_less_imp_less_exp [OF _ lt1]) simp
  moreover have "k < nat (bitlen a)"
    by (rule power_less_imp_less_exp [OF _ lt2]) simp
  ultimately show ?thesis by linarith
qed

lemma exponent2_eqI:
  assumes "pow2 e \<le> \<bar>x\<bar>" "\<bar>x\<bar> < pow2 (e + 1)"
  shows "exponent2 x = e"
proof (cases "0 \<le> e")
  case True
  from True assms have lo: "2 ^ nat e \<le> \<bar>x\<bar>" and hi: "\<bar>x\<bar> < 2 ^ Suc (nat e)"
    by (simp_all add: pow2_def nat_add_distrib)
  from lo have one: "1 \<le> \<bar>x\<bar>"
    by (meson one_le_numeral one_le_power order_trans)
  from lo have "(2::int) ^ nat e \<le> \<lfloor>\<bar>x\<bar>\<rfloor>"
    by (simp add: le_floor_iff)
  moreover from hi have "\<lfloor>\<bar>x\<bar>\<rfloor> < (2::int) ^ Suc (nat e)"
    by (simp add: floor_less_iff)
  ultimately have "bitlen \<lfloor>\<bar>x\<bar>\<rfloor> = int (nat e) + 1" by (rule bitlen_eqI)
  with one True show ?thesis by (simp add: exponent2_def)
next
  case False
  define k where "k = nat (- e) - 1"
  from False have e: "e = - int (Suc k)" by (simp add: k_def)
  from False have ne: "nat (- e) = Suc k" by (simp add: k_def)
  from False have "pow2 e = 1 / 2 ^ nat (- e)" by (simp add: pow2_def)
  with assms(1) have lo: "1 / 2 ^ Suc k \<le> \<bar>x\<bar>" by (simp only: ne)
  have "pow2 (e + 1) = 1 / 2 ^ k"
    by (cases k) (simp_all add: pow2_def e nat_add_distrib)
  with assms(2) have hi: "\<bar>x\<bar> < 1 / 2 ^ k" by simp
  from lo have pos: "0 < \<bar>x\<bar>"
    by (smt (verit) divide_pos_pos zero_less_power)
  from hi have lt1: "\<bar>x\<bar> < 1"
    by (smt (verit) divide_le_eq_1 one_le_power)
  from hi pos have "2 ^ k < 1 / \<bar>x\<bar>"
    by (simp add: field_simps)
  then have "(2::int) ^ k < \<lceil>1 / \<bar>x\<bar>\<rceil>"
    by (simp add: less_ceiling_iff)
  then have a: "(2::int) ^ k \<le> \<lceil>1 / \<bar>x\<bar>\<rceil> - 1" by simp
  from lo pos have "1 / \<bar>x\<bar> \<le> 2 ^ Suc k"
    by (simp add: field_simps)
  then have "\<lceil>1 / \<bar>x\<bar>\<rceil> \<le> (2::int) ^ Suc k"
    by (simp add: ceiling_le_iff)
  then have b: "\<lceil>1 / \<bar>x\<bar>\<rceil> - 1 < (2::int) ^ Suc k" by simp
  from a b have "bitlen (\<lceil>1 / \<bar>x\<bar>\<rceil> - 1) = int k + 1" by (rule bitlen_eqI)
  with lt1 show ?thesis by (simp add: exponent2_def e)
qed

lemma fl_eqI:
  assumes "pow2 e \<le> \<bar>x\<bar>" "\<bar>x\<bar> < pow2 (e + 1)"
    and "round_half_even (x / pow2 (e - 52)) = m"
  shows "fl x = of_int m * pow2 (e - 52)"
proof -
  from assms(1,2) have "exponent2 x = e" by (rule exponent2_eqI)
  moreover have "0 < pow2 e" by (simp add: pow2_def)
  with assms(1) have "x \<noteq> 0" by auto
  ultimately show ?thesis using assms(3) by (simp add: fl_def Let_def)
qed


lemma round_half_even_of_int [simp]: "round_half_even (of_int k) = k"
  by (simp add: round_half_even_def)

lemma fl_of_int:
  assumes "\<bar>n\<bar> < 2 ^ 53"
  shows "fl (of_int n) = of_int n"
proof (cases "n = 0")
  case True
  then show ?thesis by simp
next
  case False
  define k where "k = nat (bitlen \<bar>n\<bar> - 1)"
  from False have pos: "0 < \<bar>n\<bar>" by simp
  from bitlen_bounds [OF pos]
  have lo: "2 ^ k \<le> \<bar>n\<bar>" and hi: "\<bar>n\<bar> < 2 ^ nat (bitlen \<bar>n\<bar>)" by (simp_all add: k_def)
  from pos have "1 \<le> bitlen \<bar>n\<bar>" by (simp add: bitlen_alt_def)
  then have "nat (bitlen \<bar>n\<bar>) = Suc k" by (simp add: k_def)
  with hi have hi': "\<bar>n\<bar> < 2 ^ Suc k" by simp
  from lo assms have "(2::int) ^ k < 2 ^ 53" by (rule le_less_trans)
  then have "k < 53" by (rule power_less_imp_less_exp [rotated]) simp
  then have k: "k \<le> 52" by simp
  have p: "pow2 (int k - 52) = 1 / 2 ^ (52 - k)"
    using k by (simp add: pow2_def nat_diff_distrib)
  have "real_of_int \<bar>n\<bar> = \<bar>real_of_int n\<bar>" by simp
  have a: "pow2 (int k) \<le> \<bar>real_of_int n\<bar>"
    using lo by (simp add: pow2_def flip: of_int_abs of_int_le_iff)
  have b: "\<bar>real_of_int n\<bar> < pow2 (int k + 1)"
  proof -
    from hi' have "real_of_int \<bar>n\<bar> < real_of_int (2 ^ Suc k)" by (simp only: of_int_less_iff)
    then show ?thesis by (simp add: pow2_def nat_add_distrib)
  qed
  have "real_of_int n / pow2 (int k - 52) = of_int (n * 2 ^ (52 - k))"
    by (simp add: p)
  then have c: "round_half_even (real_of_int n / pow2 (int k - 52)) = n * 2 ^ (52 - k)"
    by (simp only: round_half_even_of_int)
  from fl_eqI [OF a b c] show ?thesis by (simp add: p)
qed

lemma fl_numeral [simp]: "(numeral w :: int) < 2 ^ 53 \<Longrightarrow> fl (numeral w) = numeral w"
  using fl_of_int [of "numeral w"] by simp

lemma fl_1 [simp]: "fl 1 = 1"
  using fl_of_int [of 1] by simp

text \<open>
  When every power of every area is the same number (areas 0 and 1), the four sums
  \<open>a1\<close>, \<open>b1\<close>, \<open>a2\<close>, \<open>b2\<close> are one and the same float, and the computed determinant is
  the difference of two equal products.
\<close>

lemma equal_powers_sums:
  assumes "\<forall>p\<in>set points. pw (fst p) 2 = pw (fst p) 3 \<and> pw (fst p) 4 = pw (fst p) 3"
    and "qb1 acc = qa1 acc" "qa2 acc = qa1 acc" "qb2 acc = qa1 acc"
  shows "qb1 (second_order_sums pw points acc) = qa1 (second_order_sums pw points acc) \<and>
         qa2 (second_order_sums pw points acc) = qa1 (second_order_sums pw points acc) \<and>
         qb2 (second_order_sums pw points acc) = qa1 (second_order_sums pw points acc)"
  using assms
proof (induction points arbitrary: acc)
  case Nil
  then show ?case by simp
next
  case (Cons p points)
  let ?acc = "\<lparr>qa1 = fl (qa1 acc + pw (fst p) 3), qb1 = fl (qb1 acc + pw (fst p) 2),
               qc1 = fl (qc1 acc + fl (fst p * snd p)),
               qa2 = fl (qa2 acc + pw (fst p) 4), qb2 = fl (qb2 acc + pw (fst p) 3),
               qc2 = fl (qc2 acc + fl (fl (fst p * fst p) * snd p))\<rparr>"
  from Cons.prems have "\<forall>p\<in>set points. pw (fst p) 2 = pw (fst p) 3 \<and> pw (fst p) 4 = pw (fst p) 3"
    and "qb1 ?acc = qa1 ?acc" "qa2 ?acc = qa1 ?acc" "qb2 ?acc = qa1 ?acc"
    by simp_all
  from Cons.IH [OF this] show ?case by (simp add: Let_def)
qed

lemma equal_powers_det:
  assumes "\<forall>p\<in>set points. pw (fst p) 2 = pw (fst p) 3 \<and> pw (fst p) 4 = pw (fst p) 3"
  shows "normal_det pw points = 0"
  using equal_powers_sums [OF assms, of "\<lparr>qa1 = 0, qb1 = 0, qc1 = 0, qa2 = 0, qb2 = 0, qc2 = 0\<rparr>"]
  by (simp add: normal_det_def Let_def)

lemma quadratic_unguarded:
  assumes "4 \<le> length points"
  shows "compute_model pw self points =
     (if normal_det pw points = 0 then Inl ZeroDivisionError
      else case compute_second_order_model pw (self\<lparr>c1 := 0, c2 := 0\<rparr>) points of
             Inl e \<Rightarrow> Inl e | Inr r \<Rightarrow> Inr (True, r))"
  using assms
  by (auto simp: compute_model_def compute_second_order_model_def normal_det_def py_div_def Let_def)

lemma quadratic_returns:
  assumes "normal_det pw points \<noteq> 0"
  shows "\<exists>r. compute_second_order_model pw self points = Inr r"
  using assms by (simp add: compute_second_order_model_def normal_det_def py_div_def Let_def)

subsection \<open>The fit at four points of area 0.3\<close>

text \<open>
  The float that Python reads for \<open>0.3\<close> is \<open>5404319552844595 / 2^54\<close>. The lemmas below
  follow the loop of \<open>_compute_second_order_model\<close> over the points \<open>(0.3, 1)\<close>, \<open>(0.3, 2)\<close>,
  \<open>(0.3, 3)\<close>, \<open>(0.3, 4)\<close>, one rounding at a time; each rounding is checked from the
  exponent and the 53-bit significand of its result.
\<close>

lemma area_03: "fl (3 / 10) = 5404319552844595 / 18014398509481984"
  using fl_eqI [of "- 2" "3 / 10" 5404319552844595]
  by (simp add: pow2_def round_half_even_def Let_def power_divide)

lemma sums_cons:
  "second_order_sums pw (p # ps) acc = second_order_sums pw ps (second_order_sums pw [p] acc)"
  by (simp add: Let_def)

lemma sums_step_1:
  "second_order_sums pow_rounded [(5404319552844595 / 18014398509481984, 1)]
     \<lparr>qa1 = 0, qb1 = 0, qc1 = 0, qa2 = 0, qb2 = 0, qc2 = 0\<rparr> =
   \<lparr>qa1 = 972777519512027 / 36028797018963968, qb1 = 3242591731706757 / 36028797018963968, qc1 = 5404319552844595 / 18014398509481984, qa2 = 2334666046828865 / 288230376151711744, qb2 = 972777519512027 / 36028797018963968, qc2 = 3242591731706757 / 36028797018963968\<rparr>"
proof -
  have f0: "fl ((5404319552844595 / 18014398509481984) ^ 3) = 972777519512027 / 36028797018963968"
    using fl_eqI [of "- 6" "(5404319552844595 / 18014398509481984) ^ 3" "7782220156096216"] by (simp add: pow2_def round_half_even_def Let_def power_divide)
  have f1: "fl ((5404319552844595 / 18014398509481984) ^ 2) = 3242591731706757 / 36028797018963968"
    using fl_eqI [of "- 4" "(5404319552844595 / 18014398509481984) ^ 2" "6485183463413514"] by (simp add: pow2_def round_half_even_def Let_def power_divide)
  have f2: "fl ((5404319552844595 / 18014398509481984) ^ 4) = 2334666046828865 / 288230376151711744"
    using fl_eqI [of "- 7" "(5404319552844595 / 18014398509481984) ^ 4" "4669332093657730"] by (simp add: pow2_def round_half_even_def Let_def power_divide)
  have f3: "fl (5404319552844595 / 18014398509481984 * 1) = 5404319552844595 / 18014398509481984"
    using fl_eqI [of "- 2" "5404319552844595 / 18014398509481984 * 1" "5404319552844595"] by (simp add: pow2_def round_half_even_def Let_def power_divide)
  have f4: "fl (5404319552844595 / 18014398509481984 * (5404319552844595 / 18014398509481984)) = 3242591731706757 / 36028797018963968"
    using fl_eqI [of "- 4" "5404319552844595 / 18014398509481984 * (5404319552844595 / 18014398509481984)" "6485183463413514"] by (simp add: pow2_def round_half_even_def Let_def power_divide)
  have f5: "fl (3242591731706757 / 36028797018963968 * 1) = 3242591731706757 / 36028797018963968"
    using fl_eqI [of "- 4" "3242591731706757 / 36028797018963968 * 1" "6485183463413514"] by (simp add: pow2_def round_half_even_def Let_def power_divide)
  have f6: "fl (0 + (972777519512027 / 36028797018963968)) = 972777519512027 / 36028797018963968"
    using fl_eqI [of "- 6" "0 + (972777519512027 / 36028797018963968)" "7782220156096216"] by (simp add: pow2_def round_half_even_def Let_def power_divide)
  have f7: "fl (0 + (3242591731706757 / 36028797018963968)) = 3242591731706757 / 36028797018963968"
    using fl_eqI [of "- 4" "0 + (3242591731706757 / 36028797018963968)" "6485183463413514"] by (simp add: pow2_def round_half_even_def Let_def power_divide)
  have f8: "fl (0 + (5404319552844595 / 18014398509481984)) = 5404319552844595 / 18014398509481984"
    using fl_eqI [of "- 2" "0 + (5404319552844595 / 18014398509481984)" "5404319552844595"] by (simp add: pow2_def round_half_even_def Let_def power_divide)
  have f9: "fl (0 + (2334666046828865 / 288230376151711744)) = 2334666046828865 / 288230376151711744"
    using fl_eqI [of "- 7" "0 + (2334666046828865 / 288230376151711744)" "4669332093657730"] by (simp add: pow2_def round_half_even_def Let_def power_divide)
  show ?thesis
    unfolding second_order_sums.simps Let_def fst_conv snd_conv quad_sums.select_convs
      pow_rounded_def f0 f1 f2 f3 f4 f5 f6 f7 f8 f9
    by (rule refl)
qed

lemma sums_step_2:
  "second_order_sums pow_rounded [(5404319552844595 / 18014398509481984, 2)]
     \<lparr>qa1 = 972777519512027 / 36028797018963968, qb1 = 3242591731706757 / 36028797018963968, qc1 = 5404319552844595 / 18014398509481984, qa2 = 2334666046828865 / 288230376151711744, qb2 = 972777519512027 / 36028797018963968, qc2 = 3242591731706757 / 36028797018963968\<rparr> =
   \<lparr>qa1 = 972777519512027 / 18014398509481984, qb1 = 3242591731706757 / 18014398509481984, qc1 = 2026619832316723 / 2251799813685248, qa2 = 2334666046828865 / 144115188075855872, qb2 = 972777519512027 / 18014398509481984, qc2 = 607985949695017 / 2251799813685248\<rparr>"
proof -
  have f0: "fl ((5404319552844595 / 18014398509481984) ^ 3) = 972777519512027 / 36028797018963968"
    using fl_eqI [of "- 6" "(5404319552844595 / 18014398509481984) ^ 3" "7782220156096216"] by (simp add: pow2_def round_half_even_def Let_def power_divide)
  have f1: "fl ((5404319552844595 / 18014398509481984) ^ 2) = 3242591731706757 / 36028797018963968"
    using fl_eqI [of "- 4" "(5404319552844595 / 18014398509481984) ^ 2" "6485183463413514"] by (simp add: pow2_def round_half_even_def Let_def power_divide)
  have f2: "fl ((5404319552844595 / 18014398509481984) ^ 4) = 2334666046828865 / 288230376151711744"
    using fl_eqI [of "- 7" "(5404319552844595 / 18014398509481984) ^ 4" "4669332093657730"] by (simp add: pow2_def round_half_even_def Let_def power_divide)
  have f3: "fl (5404319552844595 / 18014398509481984 * 2) = 5404319552844595 / 9007199254740992"
    using fl_eqI [of "- 1" "5404319552844595 / 18014398509481984 * 2" "5404319552844595"] by (simp add: pow2_def round_half_even_def Let_def power_divide)
  have f4: "fl (5404319552844595 / 18014398509481984 * (5404319552844595 / 18014398509481984)) = 3242591731706757 / 36028797018963968"
    using fl_eqI [of "- 4" "5404319552844595 / 18014398509481984 * (5404319552844595 / 18014398509481984)" "6485183463413514"] by (simp add: pow2_def round_half_even_def Let_def power_divide)
  have f5: "fl (3242591731706757 / 36028797018963968 * 2) = 3242591731706757 / 18014398509481984"
    using fl_eqI [of "- 3" "3242591731706757 / 36028797018963968 * 2" "6485183463413514"] by (simp add: pow2_def round_half_even_def Let_def power_divide)
  have f6: "fl (972777519512027 / 36028797018963968 + (972777519512027 / 36028797018963968)) = 972777519512027 / 18014398509481984"
    using fl_eqI [of "- 5" "972777519512027 / 36028797018963968 + (972777519512027 / 36028797018963968)" "7782220156096216"] by (simp add: pow2_def round_half_even_def Let_def power_divide)
  have f7: "fl (3242591731706757 / 36028797018963968 + (3242591731706757 / 36028797018963968)) = 3242591731706757 / 18014398509481984"
    using fl_eqI [of "- 3" "3242591731706757 / 36028797018963968 + (3242591731706757 / 36028797018963968)" "6485183463413514"] by (simp add: pow2_def round_half_even_def Let_def power_divide)
  have f8: "fl (5404319552844595 / 18014398509481984 + (5404319552844595 / 9007199254740992)) = 2026619832316723 / 2251799813685248"
    using fl_eqI [of "- 1" "5404319552844595 / 18014398509481984 + (5404319552844595 / 9007199254740992)" "8106479329266892"] by (simp add: pow2_def round_half_even_def Let_def power_divide)
  have f9: "fl (2334666046828865 / 288230376151711744 + (2334666046828865 / 288230376151711744)) = 2334666046828865 / 144115188075855872"
    using fl_eqI [of "- 6" "2334666046828865 / 288230376151711744 + (2334666046828865 / 288230376151711744)" "4669332093657730"] by (simp add: pow2_def round_half_even_def Let_def power_divide)
  have f10: "fl (3242591731706757 / 36028797018963968 + (3242591731706757 / 18014398509481984)) = 607985949695017 / 2251799813685248"
    using fl_eqI [of "- 2" "3242591731706757 / 36028797018963968 + (3242591731706757 / 18014398509481984)" "4863887597560136"] by (simp add: pow2_def round_half_even_def Let_def power_divide)
  show ?thesis
    unfolding second_order_sums.simps Let_def fst_conv snd_conv quad_sums.select_convs
      pow_rounded_def f0 f1 f2 f3 f4 f5 f6 f7 f8 f9 f10
    by (rule refl)
qed

lemma sums_step_3:
  "second_order_sums pow_rounded [(5404319552844595 / 18014398509481984, 3)]
     \<lparr>qa1 = 972777519512027 / 18014398509481984, qb1 = 3242591731706757 / 18014398509481984, qc1 = 2026619832316723 / 2251799813685248, qa2 = 2334666046828865 / 144115188075855872, qb2 = 972777519512027 / 18014398509481984, qc2 = 607985949695017 / 2251799813685248\<rparr> =
   \<lparr>qa1 = 2918332558536081 / 36028797018963968, qb1 = 607985949695017 / 2251799813685248, qc1 = 2026619832316723 / 1125899906842624, qa2 = 7003998140486595 / 288230376151711744, qb2 = 2918332558536081 / 36028797018963968, qc2 = 607985949695017 / 1125899906842624\<rparr>"
proof -
  have f0: "fl ((5404319552844595 / 18014398509481984) ^ 3) = 972777519512027 / 36028797018963968"
    using fl_eqI [of "- 6" "(5404319552844595 / 18014398509481984) ^ 3" "7782220156096216"] by (simp add: pow2_def round_half_even_def Let_def power_divide)
  have f1: "fl ((5404319552844595 / 18014398509481984) ^ 2) = 3242591731706757 / 36028797018963968"
    using fl_eqI [of "- 4" "(5404319552844595 / 18014398509481984) ^ 2" "6485183463413514"] by (simp add: pow2_def round_half_even_def Let_def power_divide)
  have f2: "fl ((5404319552844595 / 18014398509481984) ^ 4) = 2334666046828865 / 288230376151711744"
    using fl_eqI [of "- 7" "(5404319552844595 / 18014398509481984) ^ 4" "4669332093657730"] by (simp add: pow2_def round_half_even_def Let_def power_divide)
  have f3: "fl (5404319552844595 / 18014398509481984 * 3) = 2026619832316723 / 2251799813685248"
    using fl_eqI [of "- 1" "5404319552844595 / 18014398509481984 * 3" "8106479329266892"] by (simp add: pow2_def round_half_even_def Let_def power_divide)
  have f4: "fl (5404319552844595 / 18014398509481984 * (5404319552844595 / 18014398509481984)) = 3242591731706757 / 36028797018963968"
    using fl_eqI [of "- 4" "5404319552844595 / 18014398509481984 * (5404319552844595 / 18014398509481984)" "6485183463413514"] by (simp add: pow2_def round_half_even_def Let_def power_divide)
  have f5: "fl (3242591731706757 / 36028797018963968 * 3) = 607985949695017 / 2251799813685248"
    using fl_eqI [of "- 2" "3242591731706757 / 36028797018963968 * 3" "4863887597560136"] by (simp add: pow2_def round_half_even_def Let_def power_divide)
  have f6: "fl (972777519512027 / 18014398509481984 + (972777519512027 / 36028797018963968)) = 2918332558536081 / 36028797018963968"
    using fl_eqI [of "- 4" "972777519512027 / 18014398509481984 + (972777519512027 / 36028797018963968)" "5836665117072162"] by (simp add: pow2_def round_half_even_def Let_def power_divide)
  have f7: "fl (3242591731706757 / 18014398509481984 + (3242591731706757 / 36028797018963968)) = 607985949695017 / 2251799813685248"
    using fl_eqI [of "- 2" "3242591731706757 / 18014398509481984 + (3242591731706757 / 36028797018963968)" "4863887597560136"] by (simp add: pow2_def round_half_even_def Let_def power_divide)
  have f8: "fl (2026619832316723 / 2251799813685248 + (2026619832316723 / 2251799813685248)) = 2026619832316723 / 1125899906842624"
    using fl_eqI [of "0" "2026619832316723 / 2251799813685248 + (2026619832316723 / 2251799813685248)" "8106479329266892"] by (simp add: pow2_def round_half_even_def Let_def power_divide)
  have f9: "fl (2334666046828865 / 144115188075855872 + (2334666046828865 / 288230376151711744)) = 7003998140486595 / 288230376151711744"
    using fl_eqI [of "- 6" "2334666046828865 / 144115188075855872 + (2334666046828865 / 288230376151711744)" "7003998140486595"] by (simp add: pow2_def round_half_even_def Let_def power_divide)
  have f10: "fl (607985949695017 / 2251799813685248 + (607985949695017 / 2251799813685248)) = 607985949695017 / 1125899906842624"
    using fl_eqI [of "- 1" "607985949695017 / 2251799813685248 + (607985949695017 / 2251799813685248)" "4863887597560136"] by (simp add: pow2_def round_half_even_def Let_def power_divide)
  show ?thesis
    unfolding second_order_sums.simps Let_def fst_conv snd_conv quad_sums.select_convs
      pow_rounded_def f0 f1 f2 f3 f4 f5 f6 f7 f8 f9 f10
    by (rule refl)
qed

lemma sums_step_4:
  "second_order_sums pow_rounded [(5404319552844595 / 18014398509481984, 4)]
     \<lparr>qa1 = 2918332558536081 / 36028797018963968, qb1 = 607985949695017 / 2251799813685248, qc1 = 2026619832316723 / 1125899906842624, qa2 = 7003998140486595 / 288230376151711744, qb2 = 2918332558536081 / 36028797018963968, qc2 = 607985949695017 / 1125899906842624\<rparr> =
   \<lparr>qa1 = 972777519512027 / 9007199254740992, qb1 = 3242591731706757 / 9007199254740992, qc1 = 3, qa2 = 2334666046828865 / 72057594037927936, qb2 = 972777519512027 / 9007199254740992, qc2 = 8106479329266893 / 9007199254740992\<rparr>"
proof -
  have f0: "fl ((5404319552844595 / 18014398509481984) ^ 3) = 972777519512027 / 36028797018963968"
    using fl_eqI [of "- 6" "(5404319552844595 / 18014398509481984) ^ 3" "7782220156096216"] by (simp add: pow2_def round_half_even_def Let_def power_divide)
  have f1: "fl ((5404319552844595 / 18014398509481984) ^ 2) = 3242591731706757 / 36028797018963968"
    using fl_eqI [of "- 4" "(5404319552844595 / 18014398509481984) ^ 2" "6485183463413514"] by (simp add: pow2_def round_half_even_def Let_def power_divide)
  have f2: "fl ((5404319552844595 / 18014398509481984) ^ 4) = 2334666046828865 / 288230376151711744"
    using fl_eqI [of "- 7" "(5404319552844595 / 18014398509481984) ^ 4" "4669332093657730"] by (simp add: pow2_def round_half_even_def Let_def power_divide)
  have f3: "fl (5404319552844595 / 18014398509481984 * 4) = 5404319552844595 / 4503599627370496"
    using fl_eqI [of "0" "5404319552844595 / 18014398509481984 * 4" "5404319552844595"] by (simp add: pow2_def round_half_even_def Let_def power_divide)
  have f4: "fl (5404319552844595 / 18014398509481984 * (5404319552844595 / 18014398509481984)) = 3242591731706757 / 36028797018963968"
    using fl_eqI [of "- 4" "5404319552844595 / 18014398509481984 * (5404319552844595 / 18014398509481984)" "6485183463413514"] by (simp add: pow2_def round_half_even_def Let_def power_divide)
  have f5: "fl (3242591731706757 / 36028797018963968 * 4) = 3242591731706757 / 9007199254740992"
    using fl_eqI [of "- 2" "3242591731706757 / 36028797018963968 * 4" "6485183463413514"] by (simp add: pow2_def round_half_even_def Let_def power_divide)
  have f6: "fl (2918332558536081 / 36028797018963968 + (972777519512027 / 36028797018963968)) = 972777519512027 / 9007199254740992"
    using fl_eqI [of "- 4" "2918332558536081 / 36028797018963968 + (972777519512027 / 36028797018963968)" "7782220156096216"] by (simp add: pow2_def round_half_even_def Let_def power_divide)
  have f7: "fl (607985949695017 / 2251799813685248 + (3242591731706757 / 36028797018963968)) = 3242591731706757 / 9007199254740992"
    using fl_eqI [of "- 2" "607985949695017 / 2251799813685248 + (3242591731706757 / 36028797018963968)" "6485183463413514"] by (simp add: pow2_def round_half_even_def Let_def power_divide)
  have f8: "fl (2026619832316723 / 1125899906842624 + (5404319552844595 / 4503599627370496)) = 3"
    using fl_eqI [of "1" "2026619832316723 / 1125899906842624 + (5404319552844595 / 4503599627370496)" "6755399441055744"] by (simp add: pow2_def round_half_even_def Let_def power_divide)
  have f9: "fl (7003998140486595 / 288230376151711744 + (2334666046828865 / 288230376151711744)) = 2334666046828865 / 72057594037927936"
    using fl_eqI [of "- 5" "7003998140486595 / 288230376151711744 + (2334666046828865 / 288230376151711744)" "4669332093657730"] by (simp add: pow2_def round_half_even_def Let_def power_divide)
  have f10: "fl (607985949695017 / 1125899906842624 + (3242591731706757 / 9007199254740992)) = 8106479329266893 / 9007199254740992"
    using fl_eqI [of "- 1" "607985949695017 / 1125899906842624 + (3242591731706757 / 9007199254740992)" "8106479329266893"] by (simp add: pow2_def round_half_even_def Let_def power_divide)
  show ?thesis
    unfolding second_order_sums.simps Let_def fst_conv snd_conv quad_sums.select_convs
      pow_rounded_def f0 f1 f2 f3 f4 f5 f6 f7 f8 f9 f10
    by (rule refl)
qed

lemma sums_03:
  "second_order_sums pow_rounded
     [(fl (3 / 10), 1), (fl (3 / 10), 2), (fl (3 / 10), 3), (fl (3 / 10), 4)]
     \<lparr>qa1 = 0, qb1 = 0, qc1 = 0, qa2 = 0, qb2 = 0, qc2 = 0\<rparr> =
   \<lparr>qa1 = 972777519512027 / 9007199254740992, qb1 = 3242591731706757 / 9007199254740992, qc1 = 3, qa2 = 2334666046828865 / 72057594037927936, qb2 = 972777519512027 / 9007199254740992, qc2 = 8106479329266893 / 9007199254740992\<rparr>"
  unfolding area_03
  by (simp only: sums_cons [of _ _ "_ # _"] sums_step_1 sums_step_2 sums_step_3 sums_step_4)

lemma solve_03:
  fixes s :: quad_sums
  defines "s \<equiv> \<lparr>qa1 = 972777519512027 / 9007199254740992, qb1 = 3242591731706757 / 9007199254740992, qc1 = 3, qa2 = 2334666046828865 / 72057594037927936, qb2 = 972777519512027 / 9007199254740992, qc2 = 8106479329266893 / 9007199254740992\<rparr>"
  shows "fl (fl (qa1 s * qb2 s) - fl (qa2 s * qb1 s)) = - (1 / 576460752303423488)"
    and "fl (fl (qb2 s * qc1 s) - fl (qb1 s * qc2 s)) = - (1 / 18014398509481984)"
    and "fl (fl (qa1 s * qc2 s) - fl (qa2 s * qc1 s)) = 0"
    and "fl (- (1 / 18014398509481984) / (- (1 / 576460752303423488))) = 32"
    and "fl (0 / (- (1 / 576460752303423488))) = 0"
proof -
  have g0: "fl (972777519512027 / 9007199254740992 * (972777519512027 / 9007199254740992)) = 3361919107433565 / 288230376151711744"
    using fl_eqI [of "- 7" "972777519512027 / 9007199254740992 * (972777519512027 / 9007199254740992)" "6723838214867130"] by (simp add: pow2_def round_half_even_def Let_def power_divide)
  have g1: "fl (2334666046828865 / 72057594037927936 * (3242591731706757 / 9007199254740992)) = 6723838214867131 / 576460752303423488"
    using fl_eqI [of "- 7" "2334666046828865 / 72057594037927936 * (3242591731706757 / 9007199254740992)" "6723838214867131"] by (simp add: pow2_def round_half_even_def Let_def power_divide)
  have g2: "fl (3361919107433565 / 288230376151711744 - (6723838214867131 / 576460752303423488)) = - (1 / 576460752303423488)"
    using fl_eqI [of "- 59" "3361919107433565 / 288230376151711744 - (6723838214867131 / 576460752303423488)" "- 4503599627370496"] by (simp add: pow2_def round_half_even_def Let_def power_divide)
  have g3: "fl (972777519512027 / 9007199254740992 * 3) = 2918332558536081 / 9007199254740992"
    using fl_eqI [of "- 2" "972777519512027 / 9007199254740992 * 3" "5836665117072162"] by (simp add: pow2_def round_half_even_def Let_def power_divide)
  have g4: "fl (3242591731706757 / 9007199254740992 * (8106479329266893 / 9007199254740992)) = 5836665117072163 / 18014398509481984"
    using fl_eqI [of "- 2" "3242591731706757 / 9007199254740992 * (8106479329266893 / 9007199254740992)" "5836665117072163"] by (simp add: pow2_def round_half_even_def Let_def power_divide)
  have g5: "fl (2918332558536081 / 9007199254740992 - (5836665117072163 / 18014398509481984)) = - (1 / 18014398509481984)"
    using fl_eqI [of "- 54" "2918332558536081 / 9007199254740992 - (5836665117072163 / 18014398509481984)" "- 4503599627370496"] by (simp add: pow2_def round_half_even_def Let_def power_divide)
  have g6: "fl (972777519512027 / 9007199254740992 * (8106479329266893 / 9007199254740992)) = 7003998140486595 / 72057594037927936"
    using fl_eqI [of "- 4" "972777519512027 / 9007199254740992 * (8106479329266893 / 9007199254740992)" "7003998140486595"] by (simp add: pow2_def round_half_even_def Let_def power_divide)
  have g7: "fl (2334666046828865 / 72057594037927936 * 3) = 7003998140486595 / 72057594037927936"
    using fl_eqI [of "- 4" "2334666046828865 / 72057594037927936 * 3" "7003998140486595"] by (simp add: pow2_def round_half_even_def Let_def power_divide)
  have g8: "fl (7003998140486595 / 72057594037927936 - (7003998140486595 / 72057594037927936)) = 0"
    by simp
  have g9: "fl (- (1 / 18014398509481984) / (- (1 / 576460752303423488))) = 32"
    using fl_eqI [of "5" "- (1 / 18014398509481984) / (- (1 / 576460752303423488))" "4503599627370496"] by (simp add: pow2_def round_half_even_def Let_def power_divide)
  have g10: "fl (0 / (- (1 / 576460752303423488))) = 0"
    by simp
  show "fl (fl (qa1 s * qb2 s) - fl (qa2 s * qb1 s)) = - (1 / 576460752303423488)"
    unfolding s_def quad_sums.select_convs g0 g1 g2 g3 g4 g5 g6 g7 g8 g9 g10 by (rule refl)
  show "fl (fl (qb2 s * qc1 s) - fl (qb1 s * qc2 s)) = - (1 / 18014398509481984)"
    unfolding s_def quad_sums.select_convs g0 g1 g2 g3 g4 g5 g6 g7 g8 g9 g10 by (rule refl)
  show "fl (fl (qa1 s * qc2 s) - fl (qa2 s * qc1 s)) = 0"
    unfolding s_def quad_sums.select_convs g0 g1 g2 g3 g4 g5 g6 g7 g8 g9 g10 by (rule refl)
  show "fl (- (1 / 18014398509481984) / (- (1 / 576460752303423488))) = 32"
    by (rule g9)
  show "fl (0 / (- (1 / 576460752303423488))) = 0"
    by (rule g10)
qed

lemma quadratic_value:
  assumes "second_order_sums pw points \<lparr>qa1 = 0, qb1 = 0, qc1 = 0, qa2 = 0, qb2 = 0, qc2 = 0\<rparr> = s"
    and "fl (fl (qa1 s * qb2 s) - fl (qa2 s * qb1 s)) = d" "d \<noteq> 0"
    and "fl (fl (qb2 s * qc1 s) - fl (qb1 s * qc2 s)) = n2"
    and "fl (fl (qa1 s * qc2 s) - fl (qa2 s * qc1 s)) = n1"
  shows "normal_det pw points = d"
    and "compute_second_order_model pw self points =
           Inr (self\<lparr>c2 := fl (n2 / d), c1 := fl (n1 / d)\<rparr>)"
  using assms by (simp_all add: normal_det_def compute_second_order_model_def py_div_def Let_def)

text \<open>
  Claim C4, as stated, fails: on four calibration points of equal area 1 the determinant
  \<open>a1*b2 - a2*b1\<close> is \<open>4*4 - 4*4 = 0\<close> (over the reals, and as the program computes it in
  floats); the fit does not detect it, the division is carried out and Python raises the
  built-in \<open>ZeroDivisionError\<close>, which nothing catches.
\<close>

theorem singular_quadratic_counterexample:
  "4 \<le> length [(1::real, 1::real), (1, 2), (1, 3), (1, 4)] \<and>
   exact_det [(1, 1), (1, 2), (1, 3), (1, 4)] = 0 \<and>
   compute_model pow_rounded \<lparr>c1 = 0, c2 = 0\<rparr> [(1, 1), (1, 2), (1, 3), (1, 4)] =
     Inl ZeroDivisionError"
  by (simp add: compute_model_def compute_second_order_model_def py_div_def Let_def
        exact_det_def pow_rounded_def)

text \<open>
  Claim C4, amended. For every list of at least four calibration points the quadratic fit
  divides by the determinant \<open>a1*b2 - a2*b1\<close> as the program computes it in 64-bit floats,
  and tests nothing before. When the computed determinant is zero, \<open>compute_model\<close> ends
  with Python's \<open>ZeroDivisionError\<close>: no value is returned and no fit-failure of its own
  type is raised; this is so for every list of points that all have area 1.0. When the
  computed determinant is not zero, which rounding brings about for most point sets whose
  exact determinant is zero, \<open>compute_model\<close> returns \<open>True\<close> with the two quotients as
  coefficients.
\<close>

theorem singular_quadratic_raises:
  assumes "4 \<le> length points"
  shows "(normal_det pw points = 0 \<longrightarrow> compute_model pw self points = Inl ZeroDivisionError) \<and>
         (normal_det pw points \<noteq> 0 \<longrightarrow> (\<exists>r. compute_model pw self points = Inr (True, r))) \<and>
         ((\<forall>p\<in>set points. fst p = 1) \<and> pw 1 2 = 1 \<and> pw 1 3 = 1 \<and> pw 1 4 = 1 \<longrightarrow>
            normal_det pw points = 0)"
proof (intro conjI impI)
  assume "normal_det pw points = 0"
  with assms show "compute_model pw self points = Inl ZeroDivisionError"
    by (simp add: quadratic_unguarded)
next
  assume det: "normal_det pw points \<noteq> 0"
  from quadratic_returns [OF det] obtain r
    where "compute_second_order_model pw (self\<lparr>c1 := 0, c2 := 0\<rparr>) points = Inr r"
    by blast
  with assms det show "\<exists>r. compute_model pw self points = Inr (True, r)"
    by (simp add: quadratic_unguarded)
next
  assume "(\<forall>p\<in>set points. fst p = 1) \<and> pw 1 2 = 1 \<and> pw 1 3 = 1 \<and> pw 1 4 = 1"
  then have "\<forall>p\<in>set points. pw (fst p) 2 = pw (fst p) 3 \<and> pw (fst p) 4 = pw (fst p) 3"
    by simp
  then show "normal_det pw points = 0" by (rule equal_powers_det)
qed

text \<open>
  The theorem at five points of area 1.0, where the call raises, and at four points of
  area 0.3 (the float that Python reads for \<open>0.3\<close>), where the exact determinant is zero,
  the computed one is \<open>-2^-59\<close>, and the call returns \<open>True\<close> with \<open>c2 = 32.0\<close>.
\<close>

theorem singular_quadratic_raises_witness:
  "4 \<le> length [(1::real, 5::real), (1, 6), (1, 7), (1, 8), (1, 9)] \<and>
   normal_det pow_rounded [(1, 5), (1, 6), (1, 7), (1, 8), (1, 9)] = 0 \<and>
   compute_model pow_rounded \<lparr>c1 = 1, c2 = 1\<rparr> [(1, 5), (1, 6), (1, 7), (1, 8), (1, 9)] =
     Inl ZeroDivisionError \<and>
   exact_det [(fl (3 / 10), 1), (fl (3 / 10), 2), (fl (3 / 10), 3), (fl (3 / 10), 4)] = 0 \<and>
   normal_det pow_rounded [(fl (3 / 10), 1), (fl (3 / 10), 2), (fl (3 / 10), 3), (fl (3 / 10), 4)] =
     - (1 / 2 ^ 59) \<and>
   compute_model pow_rounded \<lparr>c1 = 1, c2 = 1\<rparr>
       [(fl (3 / 10), 1), (fl (3 / 10), 2), (fl (3 / 10), 3), (fl (3 / 10), 4)] =
     Inr (True, \<lparr>c1 = 0, c2 = 32\<rparr>)"
proof -
  let ?ones = "[(1::real, 5::real), (1, 6), (1, 7), (1, 8), (1, 9)]"
  let ?pts = "[(fl (3 / 10), 1::real), (fl (3 / 10), 2), (fl (3 / 10), 3), (fl (3 / 10), 4)]"
  have len: "4 \<le> length ?ones" by simp
  have len': "4 \<le> length ?pts" by simp
  have pw: "pow_rounded 1 2 = 1" "pow_rounded 1 3 = 1" "pow_rounded 1 4 = 1"
    by (simp_all add: pow_rounded_def)
  from singular_quadratic_raises [OF len, of pow_rounded "\<lparr>c1 = 1, c2 = 1\<rparr>"] pw
  have ones: "normal_det pow_rounded ?ones = 0"
    "compute_model pow_rounded \<lparr>c1 = 1, c2 = 1\<rparr> ?ones = Inl ZeroDivisionError"
    by simp_all
  have exact: "exact_det ?pts = 0"
    by (simp add: exact_det_def)
  have nz: "- (1 / 576460752303423488) \<noteq> (0::real)" by simp
  note v = quadratic_value [OF sums_03 solve_03(1) nz solve_03(2) solve_03(3)]
  have det: "normal_det pow_rounded ?pts = - (1 / 2 ^ 59)"
    by (simp add: v(1))
  have "compute_second_order_model pow_rounded \<lparr>c1 = 0, c2 = 0\<rparr> ?pts =
          Inr \<lparr>c1 = 0, c2 = 32\<rparr>"
    by (simp only: v(2) solve_03(4) solve_03(5)) simp
  then have "compute_model pow_rounded \<lparr>c1 = 1, c2 = 1\<rparr> ?pts = Inr (True, \<lparr>c1 = 0, c2 = 32\<rparr>)"
    by (simp add: compute_model_def)
  with ones exact det len show ?thesis by blast
qed

section \<open>Properties of vsa.py\<close>

subsection \<open>Arrays\<close>

lemma length_imap2 [simp]: "length (imap2 f a) = length a"
  by (simp add: imap2_def)

lemma length_imap2_row [simp]: "y < length a \<Longrightarrow> length (imap2 f a ! y) = length (a ! y)"
  by (simp add: imap2_def nth_enumerate_eq)

lemma imap2_nth [simp]:
  "y < length a \<Longrightarrow> x < length (a ! y) \<Longrightarrow> imap2 f a ! y ! x = f y x (a ! y ! x)"
  by (simp add: imap2_def nth_enumerate_eq)

lemma map_length_imap2 [simp]: "map length (imap2 f a) = map length a"
  by (rule nth_equalityI) simp_all

lemma is_array_imap2 [simp]: "is_array h w (imap2 f a) \<longleftrightarrow> is_array h w a"
  by (auto simp: is_array_def list_all_length)

lemma sorted_hd_Min: "sorted ys \<Longrightarrow> ys \<noteq> [] \<Longrightarrow> hd ys = Min (set ys)"
  by (cases ys) (auto intro!: Min_eqI [symmetric])

lemma sorted_last_Max: "sorted ys \<Longrightarrow> ys \<noteq> [] \<Longrightarrow> last ys = Max (set ys)"
proof (induction ys)
  case Nil
  then show ?case by simp
next
  case (Cons y zs)
  show ?case
  proof (cases "zs = []")
    case True
    then show ?thesis by simp
  next
    case False
    with Cons have "last zs = Max (set zs)" by simp
    moreover from Cons.prems False have "y \<le> Max (set zs)"
      by (metis List.finite_set Max_ge_iff last_in_set calculation set_empty sorted_simps(2))
    ultimately show ?thesis using False by (simp add: max_absorb2)
  qed
qed

lemma sort_eq_Nil_iff [simp]: "sort xs = [] \<longleftrightarrow> xs = []"
  by (metis length_0_conv length_sort)

lemma hd_sort_Min: "xs \<noteq> [] \<Longrightarrow> hd (sort xs) = Min (set xs)"
  using sorted_hd_Min [of "sort xs"] by simp

lemma last_sort_Max: "xs \<noteq> [] \<Longrightarrow> last (sort xs) = Max (set xs)"
  using sorted_last_Max [of "sort xs"] by simp

text \<open>
  Claim C8. Let the rectangle hold at least one pixel of the extended image. When the
  largest sample of the rectangle minus the smallest is strictly below \<open>min_range\<close>,
  \<open>_find_spots_in_rect\<close> returns no polygon and no mask, whatever threshold Otsu's method
  and the adjustment give; the object keeps \<open>roi_mask = None\<close> and \<open>roi_polygons = []\<close>.
\<close>

theorem small_range_rejected:
  assumes "img_extended self = Some ext"
    and "concat (slice2 ext y h x w) \<noteq> []"
    and "real_of_int (int (Max (set (concat (slice2 ext y h x w))))
                      - int (Min (set (concat (slice2 ext y h x w))))) < min_range"
  shows "find_spots_in_rect cv self (x, y, w, h) threshold_adjustment min_range min_dist_from_median =
           Inr (([], None), self\<lparr>roi := (x, y, w, h), roi_mask := None, roi_polygons := []\<rparr>)"
proof -
  let ?px = "concat (slice2 ext y h x w)"
  have ne: "sort ?px \<noteq> []" using assms(2) by (simp del: concat_eq_Nil_conv)
  have range: "real_of_int (int (last (sort ?px)) - int (hd (sort ?px))) < min_range"
    using assms(3) hd_sort_Min [OF assms(2)] last_sort_Max [OF assms(2)] by metis
  show ?thesis
    using assms(1) ne range
    by (simp add: find_spots_in_rect_def Let_def del: concat_eq_Nil_conv set_concat)
qed

theorem small_range_rejected_witness:
  "img_extended (VsaProcessor_init\<lparr>img_extended := Some [[10, 12], [11, 13]], img_median := 11\<rparr>)
     = Some [[10, 12], [11, 13]] \<and>
   concat (slice2 [[10, 12], [11, 13::nat]] 0 2 0 2) \<noteq> [] \<and>
   real_of_int (int (Max (set (concat (slice2 [[10, 12], [11, 13]] 0 2 0 2))))
                - int (Min (set (concat (slice2 [[10, 12], [11, 13]] 0 2 0 2))))) < (40::real) \<and>
   find_spots_in_rect cv_example
       (VsaProcessor_init\<lparr>img_extended := Some [[10, 12], [11, 13]], img_median := 11\<rparr>)
       (0, 0, 2, 2) 0 40 10 =
     Inr (([], None),
          VsaProcessor_init\<lparr>img_extended := Some [[10, 12], [11, 13]], img_median := 11,
                             roi := (0, 0, 2, 2), roi_mask := None, roi_polygons := []\<rparr>)"
proof -
  let ?s = "VsaProcessor_init\<lparr>img_extended := Some [[10, 12], [11, 13]], img_median := 11\<rparr>"
  have h1: "img_extended ?s = Some [[10, 12], [11, 13]]" by simp
  have sl: "concat (slice2 [[10, 12], [11, 13::nat]] 0 2 0 2) = [10, 12, 11, 13]"
    by (simp add: slice2_def)
  have h2: "concat (slice2 [[10, 12], [11, 13::nat]] 0 2 0 2) \<noteq> []"
    by (simp only: sl) simp
  have h3: "real_of_int (int (Max (set (concat (slice2 [[10, 12], [11, 13]] 0 2 0 2))))
                - int (Min (set (concat (slice2 [[10, 12], [11, 13]] 0 2 0 2))))) < (40::real)"
    by (simp only: sl) simp
  from small_range_rejected [OF h1 h2 h3, of cv_example 0 10] h1 h2 h3
  show ?thesis by simp
qed

subsection \<open>Measuring the spots\<close>









subsection \<open>The mean distance to the edge\<close>












subsection \<open>Slices and tiles\<close>

lemma length_slice2: "length (slice2 a y h x w) = min h (length a - y)"
  by (simp add: slice2_def)

lemma slice2_row:
  assumes "i < h" "y + i < length a"
  shows "slice2 a y h x w ! i = take w (drop x (a ! (y + i)))"
proof -
  from assms(2) have "y \<le> length a" by simp
  then have "drop y a ! i = a ! (y + i)" by (rule nth_drop)
  with assms show ?thesis by (simp add: slice2_def)
qed

lemma slice2_nth:
  assumes "i < h" "y + i < length a" "j < w" "x + j < length (a ! (y + i))"
  shows "slice2 a y h x w ! i ! j = a ! (y + i) ! (x + j)"
proof -
  from assms(4) have "x \<le> length (a ! (y + i))" by simp
  then have "drop x (a ! (y + i)) ! j = a ! (y + i) ! (x + j)" by (rule nth_drop)
  with assms show ?thesis by (simp add: slice2_row)
qed


lemma is_array_slice2:
  assumes "is_array h w a" "y2 \<le> h" "x2 \<le> w" "y1 \<le> y2" "x1 \<le> x2"
  shows "is_array (y2 - y1) (x2 - x1) (slice2 a y1 (y2 - y1) x1 (x2 - x1))"
  using assms
  by (auto simp: is_array_def slice2_def list_all_iff dest!: in_set_takeD in_set_dropD)

lemma is_array_same_shape: "is_array h w a \<Longrightarrow> is_array h w b \<Longrightarrow> same_shape a b"
  by (auto simp: is_array_def same_shape_def list_all_length intro: nth_equalityI)

lemma is_array_nth: "is_array h w a \<Longrightarrow> y < h \<Longrightarrow> length (a ! y) = w"
  by (simp add: is_array_def list_all_length)

lemma is_array_length: "is_array h w a \<Longrightarrow> length a = h"
  by (simp add: is_array_def)

lemma is_array_map_map [simp]: "is_array h w (map (map f) a) \<longleftrightarrow> is_array h w a"
  by (simp add: is_array_def list_all_length)

lemma is_array_replicate [simp]: "is_array h w (replicate h (replicate w c))"
  by (simp add: is_array_def list_all_length)

lemma count_less_iff:
  assumes "0 < win"
  shows "i < nat \<lceil>real w / real win\<rceil> \<longleftrightarrow> i * win < w"
proof -
  have "i < nat \<lceil>real w / real win\<rceil> \<longleftrightarrow> int i < \<lceil>real w / real win\<rceil>"
    by (simp add: zless_nat_eq_int_zless)
  also have "\<dots> \<longleftrightarrow> real i < real w / real win"
    by (simp add: less_ceiling_iff)
  also have "\<dots> \<longleftrightarrow> real i * real win < real w"
    using assms by (simp add: pos_less_divide_eq)
  also have "\<dots> \<longleftrightarrow> i * win < w"
    by (metis of_nat_less_iff of_nat_mult)
  finally show ?thesis .
qed

lemma make_tiles_iff:
  assumes "0 < win"
  shows "(x1, y1, x2, y2) \<in> set (make_tiles h w win) \<longleftrightarrow>
     (\<exists>i j. i * win < w \<and> j * win < h \<and> x1 = i * win \<and> y1 = j * win \<and>
            x2 = min (x1 + win) w \<and> y2 = min (y1 + win) h)"
proof
  assume "(x1, y1, x2, y2) \<in> set (make_tiles h w win)"
  then show "\<exists>i j. i * win < w \<and> j * win < h \<and> x1 = i * win \<and> y1 = j * win \<and>
            x2 = min (x1 + win) w \<and> y2 = min (y1 + win) h"
    by (fastforce simp: make_tiles_def Let_def count_less_iff [OF assms])
next
  assume "\<exists>i j. i * win < w \<and> j * win < h \<and> x1 = i * win \<and> y1 = j * win \<and>
            x2 = min (x1 + win) w \<and> y2 = min (y1 + win) h"
  then obtain i j where ij: "i * win < w" "j * win < h" "x1 = i * win" "y1 = j * win"
    "x2 = min (x1 + win) w" "y2 = min (y1 + win) h" by blast
  from ij(1,2) have "i \<in> {0..<nat \<lceil>real w / real win\<rceil>}" "j \<in> {0..<nat \<lceil>real h / real win\<rceil>}"
    by (simp_all add: count_less_iff [OF assms])
  with ij show "(x1, y1, x2, y2) \<in> set (make_tiles h w win)"
    by (auto simp: make_tiles_def Let_def intro!: bexI [of _ j] image_eqI [of _ _ i])
qed

lemma div_mult_tile:
  fixes win x w :: nat
  assumes "0 < win" "x < w"
  shows "(x div win) * win < w" "(x div win) * win \<le> x" "x < min ((x div win) * win + win) w"
proof -
  show le: "(x div win) * win \<le> x" by simp
  from le assms(2) show "(x div win) * win < w" by (rule le_less_trans)
  have "x < (x div win) * win + win"
    using assms(1) by (metis add.commute dividend_less_div_times mult.commute)
  with assms(2) show "x < min ((x div win) * win + win) w" by simp
qed

lemma tile_unique:
  fixes win x w i :: nat
  assumes "0 < win" "i * win \<le> x" "x < min (i * win + win) w"
  shows "i = x div win"
proof -
  from assms(3) have "x < i * win + win" by linarith
  then have "x < Suc i * win" by (simp add: algebra_simps)
  with assms(2) show ?thesis by (metis div_nat_eqI mult.commute)
qed

lemma find_spots_depends:
  "img_extended s1 = img_extended s2 \<Longrightarrow> img_median s1 = img_median s2 \<Longrightarrow>
     map_sum id fst (find_spots_in_rect cv s1 rect ta mr md) =
     map_sum id fst (find_spots_in_rect cv s2 rect ta mr md)"
  by (simp add: find_spots_in_rect_def Let_def split: option.splits prod.splits)

lemma tile_value_depends:
  assumes "img_extended s1 = img_extended s2" "img_median s1 = img_median s2"
  shows "tile_value cv s1 ta mr md tile x y = tile_value cv s2 ta mr md tile x y"
proof -
  obtain x1 y1 x2 y2 where t: "tile = (x1, y1, x2, y2)" by (cases tile)
  from find_spots_depends [OF assms, of cv "(x1, y1, x2 - x1, y2 - y1)" ta mr md]
  show ?thesis unfolding tile_value_def t
    by (auto split: sum.splits option.splits prod.splits)
qed

lemma find_spots_succeeds:
  assumes "img_extended self = Some ext" "concat (slice2 ext y h x w) \<noteq> []"
  shows "\<exists>ps tm s'. find_spots_in_rect cv self (x, y, w, h) ta mr md = Inr ((ps, tm), s') \<and>
           (\<forall>rm. tm = Some rm \<longrightarrow> map length rm = map length (slice2 ext y h x w))"
  using assms
  by (auto simp: find_spots_in_rect_def Let_def threshold_binary_def comp_def
           simp del: concat_eq_Nil_conv)

subsection \<open>Stitching the tiles\<close>

lemma find_spots_frame:
  "find_spots_in_rect cv self rect ta mr md = Inr (res, s') \<Longrightarrow>
     s' = self\<lparr>roi := rect, roi_mask := snd res, roi_polygons := []\<rparr>"
  by (auto simp: find_spots_in_rect_def Let_def split: option.splits if_splits prod.splits)

lemma stitch_tiles_frame:
  "stitch_tiles cv self a tiles ta mr md = Inr (a', s') \<Longrightarrow>
     paper_mask s' = paper_mask self \<and> img s' = img self \<and> win_size s' = win_size self"
proof (induction tiles arbitrary: self a)
  case Nil
  then show ?case by simp
next
  case (Cons tile tiles)
  obtain x1 y1 x2 y2 where t: "tile = (x1, y1, x2, y2)" by (cases tile)
  from Cons.prems t obtain ps tm s1 a1 where
    f: "find_spots_in_rect cv self (x1, y1, x2 - x1, y2 - y1) ta mr md = Inr ((ps, tm), s1)"
    and "assign_tile a y1 y2 x1 x2 tm = Inr a1"
    and r: "stitch_tiles cv s1 a1 tiles ta mr md = Inr (a', s')"
    by (auto split: sum.splits prod.splits)
  from find_spots_frame [OF f]
  have "paper_mask s1 = paper_mask self" "img s1 = img self" "win_size s1 = win_size self"
    by simp_all
  with Cons.IH [OF r] show ?case by simp
qed


lemma assign_tile_pixel:
  assumes a: "is_array h w a" and ext: "is_array h w ext"
    and tile: "x1 \<le> x2" "x2 \<le> w" "y1 \<le> y2" "y2 \<le> h"
    and tm: "\<forall>rm. tm = Some rm \<longrightarrow> map length rm = map length (slice2 ext y1 (y2 - y1) x1 (x2 - x1))"
  shows "\<exists>a'. assign_tile a y1 y2 x1 x2 tm = Inr a' \<and> is_array h w a' \<and>
     (\<forall>y<h. \<forall>x<w. a' ! y ! x =
        (if in_window y1 y2 x1 x2 y x
         then (case tm of None \<Rightarrow> NaN | Some rm \<Rightarrow> F (real (unat (rm ! (y - y1) ! (x - x1)))))
         else a ! y ! x))"
proof (cases tm)
  case None
  with a show ?thesis
    by (simp add: assign_tile_def fill_slice_def is_array_length is_array_nth)
next
  case (Some rm)
  let ?b = "map (map (\<lambda>v. F (real (unat v)))) rm"
  let ?a' = "imap2 (\<lambda>y x v. if in_window y1 y2 x1 x2 y x then ?b ! (y - y1) ! (x - x1) else v) a"
  have sa: "is_array (y2 - y1) (x2 - x1) (slice2 a y1 (y2 - y1) x1 (x2 - x1))"
    using a tile by (intro is_array_slice2) simp_all
  have se: "is_array (y2 - y1) (x2 - x1) (slice2 ext y1 (y2 - y1) x1 (x2 - x1))"
    using ext tile by (intro is_array_slice2) simp_all
  from tm Some have len: "map length rm = map length (slice2 ext y1 (y2 - y1) x1 (x2 - x1))"
    by simp
  have mm: "map length ?b = map length rm" by (simp add: comp_def)
  from is_array_same_shape [OF sa se]
  have "map length (slice2 a y1 (y2 - y1) x1 (x2 - x1)) = map length ?b"
    unfolding same_shape_def mm len .
  then have shape: "same_shape (slice2 a y1 (y2 - y1) x1 (x2 - x1)) ?b"
    unfolding same_shape_def .
  from arg_cong [OF len, of length] have lrm: "length rm = y2 - y1"
    using se by (simp add: is_array_length)
  have rrm: "length (rm ! i) = x2 - x1" if "i < y2 - y1" for i
  proof -
    from that lrm have "map length rm ! i = length (rm ! i)" by simp
    moreover from that se
    have "map length (slice2 ext y1 (y2 - y1) x1 (x2 - x1)) ! i = x2 - x1"
      by (simp add: is_array_length is_array_nth)
    ultimately show ?thesis using len by simp
  qed
  have "assign_slice a y1 y2 x1 x2 ?b = Inr ?a'"
    unfolding assign_slice_def using shape by (simp only: if_True)
  then have eq: "assign_tile a y1 y2 x1 x2 tm = Inr ?a'"
    unfolding assign_tile_def Some by (simp only: option.case)
  have arr: "is_array h w ?a'" using a by simp
  have px: "?a' ! y ! x =
        (if in_window y1 y2 x1 x2 y x
         then (case tm of None \<Rightarrow> NaN | Some rm \<Rightarrow> F (real (unat (rm ! (y - y1) ! (x - x1)))))
         else a ! y ! x)" if y: "y < h" and x: "x < w" for y x
  proof -
    from a y have ly: "y < length a" by (simp add: is_array_length)
    from a y x have lx: "x < length (a ! y)" by (simp add: is_array_nth)
    have v: "?a' ! y ! x = (if in_window y1 y2 x1 x2 y x then ?b ! (y - y1) ! (x - x1) else a ! y ! x)"
      using ly lx by (rule imap2_nth)
    show ?thesis
    proof (cases "in_window y1 y2 x1 x2 y x")
      case False
      with v show ?thesis by (simp only: if_False)
    next
      case True
      then have i: "y - y1 < y2 - y1" and j: "x - x1 < x2 - x1"
        by (auto simp: in_window_def)
      from i lrm have i': "y - y1 < length rm" by simp
      from j rrm [OF i] have j': "x - x1 < length (rm ! (y - y1))" by simp
      from i' j' have "?b ! (y - y1) ! (x - x1) = F (real (unat (rm ! (y - y1) ! (x - x1))))"
        by (simp only: nth_map)
      with v True show ?thesis unfolding Some by (simp only: if_True option.case)
    qed
  qed
  from eq arr px show ?thesis by blast
qed

lemma find_append_last:
  "find P (xs @ [t]) = (case find P xs of None \<Rightarrow> (if P t then Some t else None) | Some x \<Rightarrow> Some x)"
  by (induction xs) simp_all

lemma slice2_nonempty:
  assumes "is_array h w ext" "x1 < x2" "x2 \<le> w" "y1 < y2" "y2 \<le> h"
  shows "concat (slice2 ext y1 (y2 - y1) x1 (x2 - x1)) \<noteq> []"
proof -
  from assms have "is_array (y2 - y1) (x2 - x1) (slice2 ext y1 (y2 - y1) x1 (x2 - x1))"
    by (intro is_array_slice2) simp_all
  with assms(2,4) have "0 < length (slice2 ext y1 (y2 - y1) x1 (x2 - x1))"
    and "length (slice2 ext y1 (y2 - y1) x1 (x2 - x1) ! 0) = x2 - x1"
    by (simp_all add: is_array_length is_array_nth)
  then have "slice2 ext y1 (y2 - y1) x1 (x2 - x1) ! 0 \<in> set (slice2 ext y1 (y2 - y1) x1 (x2 - x1))"
    and "slice2 ext y1 (y2 - y1) x1 (x2 - x1) ! 0 \<noteq> []"
    using assms(2) by auto
  then show ?thesis by (auto simp del: concat_eq_Nil_conv simp add: concat_eq_Nil_conv)
qed

lemma stitch_tiles_pixels:
  assumes "is_array h w ext" "img_extended self = Some ext" "is_array h w a"
    and "\<forall>t\<in>set tiles. case t of (x1, y1, x2, y2) \<Rightarrow> x1 < x2 \<and> x2 \<le> w \<and> y1 < y2 \<and> y2 \<le> h"
  shows "\<exists>a' s'. stitch_tiles cv self a tiles ta mr md = Inr (a', s') \<and> is_array h w a' \<and>
     (\<forall>y<h. \<forall>x<w. a' ! y ! x =
        (case find (\<lambda>t. covers t x y) (rev tiles) of
           None \<Rightarrow> a ! y ! x
         | Some t \<Rightarrow> tile_value cv self ta mr md t x y))"
  using assms
proof (induction tiles arbitrary: self a)
  case Nil
  then show ?case by simp
next
  case (Cons tile tiles)
  obtain x1 y1 x2 y2 where t: "tile = (x1, y1, x2, y2)" by (cases tile)
  with Cons.prems(4) have b: "x1 < x2" "x2 \<le> w" "y1 < y2" "y2 \<le> h" by simp_all
  from slice2_nonempty [OF Cons.prems(1) b]
  have ne: "concat (slice2 ext y1 (y2 - y1) x1 (x2 - x1)) \<noteq> []" .
  from find_spots_succeeds [OF Cons.prems(2) ne, of cv ta mr md] obtain ps tm s1 where
    f: "find_spots_in_rect cv self (x1, y1, x2 - x1, y2 - y1) ta mr md = Inr ((ps, tm), s1)"
    and tm: "\<forall>rm. tm = Some rm \<longrightarrow> map length rm = map length (slice2 ext y1 (y2 - y1) x1 (x2 - x1))"
    by blast
  from b have b': "x1 \<le> x2" "y1 \<le> y2" by simp_all
  from assign_tile_pixel [OF Cons.prems(3) Cons.prems(1) b'(1) b(2) b'(2) b(4) tm]
  obtain a1 where as: "assign_tile a y1 y2 x1 x2 tm = Inr a1" and arr1: "is_array h w a1"
    and px1: "\<forall>y<h. \<forall>x<w. a1 ! y ! x =
        (if in_window y1 y2 x1 x2 y x
         then (case tm of None \<Rightarrow> NaN | Some rm \<Rightarrow> F (real (unat (rm ! (y - y1) ! (x - x1)))))
         else a ! y ! x)"
    by blast
  from find_spots_frame [OF f]
  have s1: "img_extended s1 = img_extended self" "img_median s1 = img_median self" by simp_all
  with Cons.prems(2) have e1: "img_extended s1 = Some ext" by simp
  from Cons.prems(4) have rest: "\<forall>t\<in>set tiles. case t of (x1, y1, x2, y2) \<Rightarrow>
      x1 < x2 \<and> x2 \<le> w \<and> y1 < y2 \<and> y2 \<le> h" by simp
  from Cons.IH [OF Cons.prems(1) e1 arr1 rest] obtain a' s' where
    st: "stitch_tiles cv s1 a1 tiles ta mr md = Inr (a', s')" and arr': "is_array h w a'"
    and px': "\<forall>y<h. \<forall>x<w. a' ! y ! x =
        (case find (\<lambda>t. covers t x y) (rev tiles) of
           None \<Rightarrow> a1 ! y ! x
         | Some t \<Rightarrow> tile_value cv s1 ta mr md t x y)"
    by blast
  have tv: "tile_value cv s1 ta mr md u x y = tile_value cv self ta mr md u x y" for u x y
    by (rule tile_value_depends [OF s1])
  have here: "tile_value cv self ta mr md tile x y =
      (case tm of None \<Rightarrow> NaN | Some rm \<Rightarrow> F (real (unat (rm ! (y - y1) ! (x - x1)))))" for x y
    unfolding tile_value_def t using f by (simp split: option.splits)
  have eq: "stitch_tiles cv self a (tile # tiles) ta mr md = Inr (a', s')"
    using f as st by (simp add: t)
  have "a' ! y ! x =
        (case find (\<lambda>t. covers t x y) (rev (tile # tiles)) of
           None \<Rightarrow> a ! y ! x
         | Some t \<Rightarrow> tile_value cv self ta mr md t x y)" if "y < h" "x < w" for y x
  proof (cases "find (\<lambda>t. covers t x y) (rev tiles)")
    case (Some u)
    with px' that tv show ?thesis by (simp add: find_append_last)
  next
    case None
    with px' that have "a' ! y ! x = a1 ! y ! x" by simp
    also from px1 that have "\<dots> = (if in_window y1 y2 x1 x2 y x
         then (case tm of None \<Rightarrow> NaN | Some rm \<Rightarrow> F (real (unat (rm ! (y - y1) ! (x - x1)))))
         else a ! y ! x)" by blast
    also have "\<dots> = (if covers tile x y then tile_value cv self ta mr md tile x y else a ! y ! x)"
      unfolding here by (simp only: covers_def t prod.case)
    finally show ?thesis using None by (simp add: find_append_last)
  qed
  with eq arr' show ?case by blast
qed

lemma find_unique:
  assumes "T \<in> set ts" "P T" "\<forall>t\<in>set ts. P t \<longrightarrow> t = T"
  shows "find P (rev ts) = Some T"
proof (cases "find P (rev ts)")
  case None
  with assms(1,2) show ?thesis by (auto simp: find_None_iff)
next
  case (Some u)
  then obtain i where i: "i < length (rev ts)" "P (rev ts ! i)" "u = rev ts ! i"
    by (auto simp: find_Some_iff)
  from i(1,3) have "u \<in> set (rev ts)" by (simp only: nth_mem)
  then have "u \<in> set ts" by simp
  with assms(3) i Some show ?thesis by auto
qed

lemma make_tiles_bounds:
  assumes "0 < win" "t \<in> set (make_tiles h w win)"
  shows "case t of (x1, y1, x2, y2) \<Rightarrow> x1 < x2 \<and> x2 \<le> w \<and> y1 < y2 \<and> y2 \<le> h"
proof -
  obtain x1 y1 x2 y2 where t: "t = (x1, y1, x2, y2)" by (cases t)
  from assms(2) [unfolded t make_tiles_iff [OF assms(1)]] assms(1)
  show ?thesis unfolding t by auto
qed

lemma covering_tile:
  assumes win: "0 < win" and x: "x < w" and y: "y < h"
  shows "find (\<lambda>t. covers t x y) (rev (make_tiles h w win)) =
           Some ((x div win) * win, (y div win) * win,
                 min ((x div win) * win + win) w, min ((y div win) * win + win) h)"
    and "((x div win) * win, (y div win) * win,
          min ((x div win) * win + win) w, min ((y div win) * win + win) h)
         \<in> set (make_tiles h w win)"
proof -
  let ?T = "((x div win) * win, (y div win) * win,
            min ((x div win) * win + win) w, min ((y div win) * win + win) h)"
  note dx = div_mult_tile [OF win x] and dy = div_mult_tile [OF win y]
  show mem: "?T \<in> set (make_tiles h w win)"
    unfolding make_tiles_iff [OF win] using dx(1) dy(1) by blast
  have cov: "covers ?T x y"
    using dx dy by (simp add: covers_def in_window_def)
  have uniq: "\<forall>t\<in>set (make_tiles h w win). covers t x y \<longrightarrow> t = ?T"
  proof (intro ballI impI)
    fix t assume t: "t \<in> set (make_tiles h w win)" and c: "covers t x y"
    obtain x1 y1 x2 y2 where tt: "t = (x1, y1, x2, y2)" by (cases t)
    from t [unfolded tt make_tiles_iff [OF win]] obtain i j where
      ij: "x1 = i * win" "y1 = j * win" "x2 = min (x1 + win) w" "y2 = min (y1 + win) h"
      by blast
    from c have "x1 \<le> x" "x < x2" "y1 \<le> y" "y < y2"
      by (simp_all add: tt covers_def in_window_def)
    with ij have "i * win \<le> x" "x < min (i * win + win) w" "j * win \<le> y" "y < min (j * win + win) h"
      by simp_all
    then have "i = x div win" "j = y div win"
      using tile_unique [OF win] by blast+
    with ij show "t = ?T" by (simp add: tt)
  qed
  from mem cov uniq show "find (\<lambda>t. covers t x y) (rev (make_tiles h w win)) = Some ?T"
    by (rule find_unique)
qed

lemma byte_of_floor: "word_of_int \<lfloor>real (unat v)\<rfloor> = (v :: 8 word)"
proof -
  have "\<lfloor>real (unat v)\<rfloor> = int (unat v)" by (rule floor_of_nat)
  moreover have "word_of_int (int (unat v)) = v" by simp
  ultimately show ?thesis by (simp only:)
qed

lemma astype_uint8_byte: "astype_uint8 (F (real (unat (v :: 8 word)))) = v"
  unfolding astype_uint8_def np_float.case by (rule byte_of_floor)

lemma astype_tile_value:
  "astype_uint8 (tile_value cv self ta mr md (x1, y1, x2, y2) x y) =
     (case find_spots_in_rect cv self (x1, y1, x2 - x1, y2 - y1) ta mr md of
        Inr ((_, Some tile_mask), _) \<Rightarrow> tile_mask ! (y - y1) ! (x - x1)
      | _ \<Rightarrow> 0)"
proof (cases "find_spots_in_rect cv self (x1, y1, x2 - x1, y2 - y1) ta mr md")
  case (Inl e)
  then show ?thesis by (simp add: tile_value_def astype_uint8_def)
next
  case (Inr r)
  obtain ps tm s' where r: "r = ((ps, tm), s')" by (metis prod.collapse)
  show ?thesis
  proof (cases tm)
    case None
    with Inr r show ?thesis by (simp add: tile_value_def astype_uint8_def)
  next
    case (Some rm)
    with Inr r have "tile_value cv self ta mr md (x1, y1, x2, y2) x y =
        F (real (unat (rm ! (y - y1) ! (x - x1))))"
      unfolding tile_value_def by (simp only: prod.case sum.case option.case)
    then have "astype_uint8 (tile_value cv self ta mr md (x1, y1, x2, y2) x y) =
        rm ! (y - y1) ! (x - x1)"
      by (simp only: astype_uint8_byte)
    with Inr r Some show ?thesis by (simp only: prod.case sum.case option.case)
  qed
qed

lemma astype_tile_pixel:
  "astype_uint8 (tile_value cv self ta mr md tile x y) = tile_pixel cv self ta mr md tile x y"
proof -
  obtain x1 y1 x2 y2 where t: "tile = (x1, y1, x2, y2)" by (cases tile)
  show ?thesis unfolding t tile_pixel_def prod.case by (rule astype_tile_value)
qed

lemma segment_spots_pixels:
  assumes im: "img self = Some im" "is_array h w im" and hw: "0 < h" "0 < w"
    and ext: "img_extended self = Some ext" "is_array h w ext"
    and pm: "paper_mask self = Some pm" "is_array h w pm"
    and win: "0 < win_size self"
  shows "\<exists>self' m. segment_spots cv self ta mr md = Inr self' \<and>
       spot_mask self' = Some m \<and> is_array h w m \<and>
       (\<forall>y<h. \<forall>x<w.
          tile_of h w (win_size self) x y \<in> set (make_tiles h w (win_size self)) \<and>
          covers (tile_of h w (win_size self) x y) x y \<and>
          m ! y ! x =
            (if pm ! y ! x = 0 then 0
             else tile_pixel cv self ta mr md (tile_of h w (win_size self) x y) x y))"
proof -
  let ?s0 = "self\<lparr>roi_polygons := [], spot_polygons := []\<rparr>"
  let ?win = "win_size self"
  let ?tiles = "make_tiles h w ?win"
  let ?a0 = "replicate h (replicate w (F 0))"
  from im have lh: "length im = h" by (simp add: is_array_length)
  with hw have "hd im = im ! 0" by (cases im) auto
  with im hw have len: "length im = h" "length (hd im) = w"
    by (simp_all add: is_array_length is_array_nth)
  from im hw have hi: "have_img ?s0" by (auto simp: have_img_def is_array_def)
  have e0: "img_extended ?s0 = Some ext" using ext by simp
  have bnd: "\<forall>t\<in>set ?tiles. case t of (x1, y1, x2, y2) \<Rightarrow>
      x1 < x2 \<and> x2 \<le> w \<and> y1 < y2 \<and> y2 \<le> h"
    using make_tiles_bounds [OF win] by blast
  have a0: "is_array h w ?a0" by simp
  from stitch_tiles_pixels [OF ext(2) e0 a0 bnd, of cv ta mr md] obtain a s1 where
    st: "stitch_tiles cv ?s0 ?a0 ?tiles ta mr md = Inr (a, s1)" and arr: "is_array h w a"
    and px: "\<forall>y<h. \<forall>x<w. a ! y ! x =
        (case find (\<lambda>t. covers t x y) (rev ?tiles) of
           None \<Rightarrow> ?a0 ! y ! x
         | Some t \<Rightarrow> tile_value cv ?s0 ta mr md t x y)"
    by blast
  from stitch_tiles_frame [OF st] pm have p1: "paper_mask s1 = Some pm" by simp
  let ?u = "map (map astype_uint8) a"
  let ?m = "imap2 (\<lambda>y x v. if pm ! y ! x = 0 then 0 else v) ?u"
  have u: "is_array h w ?u" using arr by simp
  from is_array_same_shape [OF pm(2) u] have "same_shape pm ?u" .
  then have wp: "where_paper (paper_mask s1) ?u = Inr ?m"
    by (simp add: where_paper_def p1)
  let ?self' = "s1\<lparr>spot_mask := Some ?m, spot_polygons := findContours cv ?m\<rparr>"
  have seg: "segment_spots cv self ta mr md = Inr ?self'"
    using im(1) hi win st wp by (simp add: segment_spots_def Let_def len vectorize_spots_def)
  have m: "is_array h w ?m" using u by simp
  have pix: "tile_of h w ?win x y \<in> set ?tiles \<and> covers (tile_of h w ?win x y) x y \<and>
      ?m ! y ! x = (if pm ! y ! x = 0 then 0
                    else tile_pixel cv self ta mr md (tile_of h w ?win x y) x y)"
    if y: "y < h" and x: "x < w" for y x
  proof -
    note ct = covering_tile [OF win x y, folded tile_of_def]
    note dx = div_mult_tile [OF win x] and dy = div_mult_tile [OF win y]
    have cov: "covers (tile_of h w ?win x y) x y"
      using dx dy by (simp add: tile_of_def covers_def in_window_def)
    from px y x ct(1) have "a ! y ! x = tile_value cv ?s0 ta mr md (tile_of h w ?win x y) x y"
      by simp
    also have "\<dots> = tile_value cv self ta mr md (tile_of h w ?win x y) x y"
      by (rule tile_value_depends) simp_all
    finally have av: "astype_uint8 (a ! y ! x) =
        tile_pixel cv self ta mr md (tile_of h w ?win x y) x y"
      by (simp only: astype_tile_pixel)
    from arr y x have ly: "y < length ?u" and lx: "x < length (?u ! y)"
      by (simp_all add: is_array_length is_array_nth)
    from ly lx have "?m ! y ! x = (if pm ! y ! x = 0 then 0 else ?u ! y ! x)"
      by (rule imap2_nth)
    moreover from arr y x have "?u ! y ! x = astype_uint8 (a ! y ! x)"
      by (simp add: is_array_length is_array_nth)
    ultimately have "?m ! y ! x = (if pm ! y ! x = 0 then 0
        else tile_pixel cv self ta mr md (tile_of h w ?win x y) x y)"
      using av by (simp only:)
    with ct(2) cov show ?thesis by blast
  qed
  have "spot_mask ?self' = Some ?m" by simp
  with seg m pix show ?thesis by blast
qed



lemma array_2_3:
  assumes "is_array 2 3 m"
  shows "m = [[m ! 0 ! 0, m ! 0 ! 1, m ! 0 ! 2], [m ! 1 ! 0, m ! 1 ! 1, m ! 1 ! 2]]"
proof -
  from assms obtain r0 r1 where m: "m = [r0, r1]" and l: "length r0 = 3" "length r1 = 3"
    by (auto simp: is_array_def length_Suc_conv numeral_2_eq_2)
  from l obtain a b c where r0: "r0 = [a, b, c]"
    by (auto simp: length_Suc_conv numeral_3_eq_3)
  from l obtain d e f where r1: "r1 = [d, e, f]"
    by (auto simp: length_Suc_conv numeral_3_eq_3)
  show ?thesis by (simp add: m r0 r1)
qed

lemma tiles_2_3: "make_tiles 2 3 2 = [(0, 0, 2, 2), (2, 0, 3, 2)]"
proof -
  have "nat \<lceil>real 3 / real 2\<rceil> = 2" "nat \<lceil>real 2 / real 2\<rceil> = 1"
    by (simp_all add: ceiling_eq_iff)
  then show ?thesis by (simp add: make_tiles_def Let_def upt_rec numeral_2_eq_2)
qed

lemma tile_left:
  "tile_pixel cv_example tiled_processor 0 40 0 (0, 0, 2, 2) x y = [[0, 255], [0, 0]] ! y ! x"
  by (simp add: tile_pixel_def find_spots_in_rect_def tiled_processor_def VsaProcessor_init_def
        slice2_def Let_def cv_example_def smallest_sample_def py_int_def threshold_binary_def
        np_any_def)

lemma tile_right:
  "tile_pixel cv_example tiled_processor 0 40 0 (2, 0, 3, 2) x y = 0"
  by (simp add: tile_pixel_def find_spots_in_rect_def tiled_processor_def VsaProcessor_init_def
        slice2_def Let_def cv_example_def smallest_sample_def py_int_def threshold_binary_def
        np_any_def)



text \<open>
  Claim C1. Let an image of \<open>h\<close> rows and \<open>w\<close> columns be loaded and its paper segmented,
  so that the extended image and the paper mask are there with the shape of the image.
  The window side is 100 in a new processor. \<open>segment_spots\<close> returns, and its spot mask
  has the shape of the image. Every pixel \<open>(x, y)\<close> lies in one tile of the list the
  function builds, the square window of side \<open>win_size\<close> on the grid, clipped to the
  image. The pixel of the spot mask is background where the paper mask is 0; elsewhere it
  is what \<open>_find_spots_in_rect\<close> gives for that tile alone, run on the object as it was
  before the call: the pixel of the tile mask when the tile is accepted, background when
  it is rejected.
\<close>

theorem segment_spots_tiled:
  assumes "img self = Some im" "is_array h w im" and "0 < h" "0 < w"
    and "img_extended self = Some ext" "is_array h w ext"
    and "paper_mask self = Some pm" "is_array h w pm"
    and "0 < win_size self"
  shows "win_size VsaProcessor_init = 100 \<and>
    (\<exists>self' m. segment_spots cv self ta mr md = Inr self' \<and>
       spot_mask self' = Some m \<and> is_array h w m \<and>
       (\<forall>y<h. \<forall>x<w.
          tile_of h w (win_size self) x y \<in> set (make_tiles h w (win_size self)) \<and>
          covers (tile_of h w (win_size self) x y) x y \<and>
          m ! y ! x =
            (if pm ! y ! x = 0 then 0
             else tile_pixel cv self ta mr md (tile_of h w (win_size self) x y) x y)))"
  using segment_spots_pixels [OF assms, of cv ta mr md] by (simp add: VsaProcessor_init_def)

text \<open>
  The theorem on an image of 2 x 3 pixels with windows of side 2: the left tile is
  accepted with one foreground pixel, the right tile, clipped to one column, is rejected.
\<close>

theorem segment_spots_tiled_witness:
  "img tiled_processor = Some [[10, 200, 10], [10, 10, 10]] \<and>
   is_array 2 3 [[10, 200, 10], [10, 10, 10 :: nat]] \<and>
   paper_mask tiled_processor = Some [[255, 255, 255], [255, 255, 0]] \<and>
   win_size tiled_processor = 2 \<and>
   make_tiles 2 3 (win_size tiled_processor) = [(0, 0, 2, 2), (2, 0, 3, 2)] \<and>
   map_sum id spot_mask (segment_spots cv_example tiled_processor 0 40 0) =
     Inr (Some [[0, 255, 0], [0, 0, 0]])"
proof -
  let ?im = "[[10, 200, 10], [10, 10, 10 :: nat]]"
  let ?pm = "[[255, 255, 255], [255, 255, 0 :: 8 word]]"
  have im: "img tiled_processor = Some ?im" and ext: "img_extended tiled_processor = Some ?im"
    and pm: "paper_mask tiled_processor = Some ?pm" and win: "win_size tiled_processor = 2"
    by (simp_all add: tiled_processor_def VsaProcessor_init_def)
  have ai: "is_array 2 3 ?im" and ap: "is_array 2 3 ?pm"
    by (simp_all add: is_array_def)
  have w0: "0 < win_size tiled_processor" by (simp add: win)
  from segment_spots_tiled [OF im ai _ _ ext ai pm ap w0, of cv_example 0 40 0]
  obtain self' m where seg: "segment_spots cv_example tiled_processor 0 40 0 = Inr self'"
    and sm: "spot_mask self' = Some m" and am: "is_array 2 3 m"
    and px: "\<forall>y<2. \<forall>x<3. m ! y ! x =
            (if ?pm ! y ! x = 0 then 0
             else tile_pixel cv_example tiled_processor 0 40 0 (tile_of 2 3 2 x y) x y)"
    by (auto simp: win)
  have t: "tile_of 2 3 2 0 y = (0, 0, 2, 2)" "tile_of 2 3 2 (Suc 0) y = (0, 0, 2, 2)"
    "tile_of 2 3 2 2 y = (2, 0, 3, 2)" if "y < 2" for y
    using that by (simp_all add: tile_of_def)
  from px have "m ! 0 ! 0 = 0" "m ! 0 ! 1 = 255" "m ! 0 ! 2 = 0"
    "m ! 1 ! 0 = 0" "m ! 1 ! 1 = 0" "m ! 1 ! 2 = 0"
    by (simp_all add: t tile_left tile_right)
  with array_2_3 [OF am] have "m = [[0, 255, 0], [0, 0, 0]]" by simp
  with seg sm im ai pm win tiles_2_3 show ?thesis by simp
qed

subsection \<open>Filling and clearing a polygon\<close>

lemma imap2_imap2: "imap2 f (imap2 g a) = imap2 (\<lambda>y x v. f y x (g y x v)) a"
proof (rule nth_equalityI)
  show "length (imap2 f (imap2 g a)) = length (imap2 (\<lambda>y x v. f y x (g y x v)) a)" by simp
next
  fix y assume "y < length (imap2 f (imap2 g a))"
  then have y: "y < length a" by simp
  show "imap2 f (imap2 g a) ! y = imap2 (\<lambda>y x v. f y x (g y x v)) a ! y"
    by (rule nth_equalityI) (simp_all add: y)
qed

lemma fill_then_clear_mask:
  "drawContours cv (drawContours cv m [polygon] 255) [polygon] 0 =
     imap2 (\<lambda>y x v. if filled cv [polygon] x y then 0 else v) m"
  by (simp add: drawContours_def imap2_imap2 if_distrib cong: if_cong)

text \<open>
  Claim C3, as stated, fails: in an image of 2 x 2 pixels whose spot mask is all
  foreground, filling the unit square and then clearing it leaves the spot mask all
  background. The square covers the pixel \<open>(0, 0)\<close>, which was 255 before and is 0 after.
\<close>

theorem fill_then_clear_counterexample:
  "img example_processor = Some [[10, 10], [10, 10]] \<and>
   spot_mask example_processor = Some [[255, 255], [255, 255]] \<and>
   filled cv_example [unit_square] 0 0 \<and>
   map_sum id spot_mask (fill_then_clear cv_example example_processor unit_square) =
     Inr (Some [[0, 0], [0, 0]])"
  by (simp add: fill_then_clear_def fill_poly_selection_def clear_poly_selection_def
        vectorize_spots_def example_processor_def VsaProcessor_init_def drawContours_def
        imap2_def enumerate_eq_zip cv_example_def box_filled_def unit_square_def)

text \<open>
  Claim C3, amended. With an image loaded and a spot mask, \<open>fill_poly_selection\<close> followed
  by \<open>clear_poly_selection\<close> with the same polygon returns, and leaves every pixel that the
  polygon covers at 0 and every other pixel as it was. So within the region of the
  polygon the spot mask is equal to its state before the fill exactly at the pixels that
  were background then.
\<close>

theorem fill_then_clear_zeroes:
  assumes "img self = Some im" and "spot_mask self = Some m"
  shows "fill_then_clear cv self polygon =
           Inr (self\<lparr>spot_mask := Some (imap2 (\<lambda>y x v. if filled cv [polygon] x y then 0 else v) m),
                     spot_polygons :=
                       findContours cv (imap2 (\<lambda>y x v. if filled cv [polygon] x y then 0 else v) m)\<rparr>) \<and>
         (\<forall>y<length m. \<forall>x<length (m ! y).
            imap2 (\<lambda>y x v. if filled cv [polygon] x y then 0 else v) m ! y ! x =
              (if filled cv [polygon] x y then 0 else m ! y ! x))"
  using assms
  by (simp add: fill_then_clear_def fill_poly_selection_def clear_poly_selection_def
        vectorize_spots_def fill_then_clear_mask)

theorem fill_then_clear_zeroes_witness:
  "img (example_processor\<lparr>spot_mask := Some [[0, 255], [255, 0]]\<rparr>) = Some [[10, 10], [10, 10]] \<and>
   spot_mask (example_processor\<lparr>spot_mask := Some [[0, 255], [255, 0]]\<rparr>) =
     Some [[0, 255], [255, 0]] \<and>
   filled cv_example [top_row] 0 0 \<and> filled cv_example [top_row] 1 0 \<and>
   \<not> filled cv_example [top_row] 0 1 \<and> \<not> filled cv_example [top_row] 1 1 \<and>
   map_sum id spot_mask
     (fill_then_clear cv_example (example_processor\<lparr>spot_mask := Some [[0, 255], [255, 0]]\<rparr>)
        top_row) = Inr (Some [[0, 0], [255, 0]])"
proof -
  let ?s = "example_processor\<lparr>spot_mask := Some [[0, 255], [255, 0]]\<rparr>"
  have i: "img ?s = Some [[10, 10], [10, 10]]"
    by (simp add: example_processor_def VsaProcessor_init_def)
  have m: "spot_mask ?s = Some [[0, 255], [255, 0]]" by simp
  have f: "filled cv_example [top_row] 0 0" "filled cv_example [top_row] 1 0"
    "\<not> filled cv_example [top_row] 0 1" "\<not> filled cv_example [top_row] 1 1"
    by (simp_all add: cv_example_def box_filled_def top_row_def)
  from fill_then_clear_zeroes [OF i m, of cv_example top_row] i m f
  show ?thesis by (simp add: imap2_def enumerate_eq_zip)
qed

subsection \<open>The spot mask and the paper mask\<close>

lemma mask_subset_iff:
  "mask_subset m p \<longleftrightarrow>
     map length m = map length p \<and>
     (\<forall>y<length m. \<forall>x<length (m ! y). m ! y ! x \<noteq> 0 \<longrightarrow> p ! y ! x \<noteq> 0)"
proof
  assume a: "mask_subset m p"
  then have len: "length m = length p"
    and rows: "\<forall>y<length m. list_all2 (\<lambda>v q. v \<noteq> 0 \<longrightarrow> q \<noteq> 0) (m ! y) (p ! y)"
    by (simp_all add: mask_subset_def list_all2_conv_all_nth)
  have "map length m = map length p"
  proof (rule nth_equalityI)
    show "length (map length m) = length (map length p)" using len by simp
  next
    fix y assume "y < length (map length m)"
    then have y: "y < length m" by simp
    with rows have "length (m ! y) = length (p ! y)" by (auto dest: list_all2_lengthD)
    with y len show "map length m ! y = map length p ! y" by simp
  qed
  moreover from rows
  have "\<forall>y<length m. \<forall>x<length (m ! y). m ! y ! x \<noteq> 0 \<longrightarrow> p ! y ! x \<noteq> 0"
    by (auto simp: list_all2_conv_all_nth)
  ultimately show "map length m = map length p \<and>
     (\<forall>y<length m. \<forall>x<length (m ! y). m ! y ! x \<noteq> 0 \<longrightarrow> p ! y ! x \<noteq> 0)" by blast
next
  assume a: "map length m = map length p \<and>
     (\<forall>y<length m. \<forall>x<length (m ! y). m ! y ! x \<noteq> 0 \<longrightarrow> p ! y ! x \<noteq> 0)"
  then have len: "length m = length p" by (metis length_map)
  have row: "length (m ! y) = length (p ! y)" if "y < length m" for y
  proof -
    from that len have "map length m ! y = length (m ! y)" "map length p ! y = length (p ! y)"
      by simp_all
    with a show ?thesis by simp
  qed
  from a len row show "mask_subset m p"
    by (simp add: mask_subset_def list_all2_conv_all_nth)
qed

lemma where_paper_subset:
  assumes "where_paper (Some p) m = Inr m'"
  shows "mask_subset m' p"
proof -
  from assms have sh: "same_shape p m"
    and m': "m' = imap2 (\<lambda>y x v. if p ! y ! x = 0 then 0 else v) m"
    by (auto simp: where_paper_def split: if_splits)
  from sh have ml: "map length m = map length p" by (simp add: same_shape_def)
  then have "length m = length p" by (metis length_map)
  show ?thesis
    unfolding mask_subset_iff m' using ml by auto
qed

lemma segment_spots_subset:
  assumes "segment_spots cv self ta mr md = Inr self'"
    and "img self = Some im" "im \<noteq> []"
    and "paper_mask self = Some p"
  shows "paper_mask self' = Some p \<and> (\<exists>m. spot_mask self' = Some m \<and> mask_subset m p)"
proof -
  let ?s0 = "self\<lparr>roi_polygons := [], spot_polygons := []\<rparr>"
  from assms(2,3) have hi: "have_img ?s0" by (simp add: have_img_def)
  from assms(1,2) hi obtain a s1 m where
    st: "stitch_tiles cv ?s0 (replicate (length im) (replicate (length (hd im)) (F 0)))
           (make_tiles (length im) (length (hd im)) (win_size self)) ta mr md = Inr (a, s1)"
    and wp: "where_paper (paper_mask s1) (map (map astype_uint8) a) = Inr m"
    and v: "vectorize_spots cv (s1\<lparr>spot_mask := Some m\<rparr>) = Inr self'"
    by (auto simp: segment_spots_def Let_def split: if_splits sum.splits prod.splits)
  from stitch_tiles_frame [OF st] assms(4) have p1: "paper_mask s1 = Some p" by simp
  from wp p1 have "mask_subset m p" by (simp add: where_paper_subset)
  moreover from v p1 have "paper_mask self' = Some p" "spot_mask self' = Some m"
    by (auto simp: vectorize_spots_def)
  ultimately show ?thesis by simp
qed

lemma draw_subset_iff:
  assumes "mask_subset m p"
  shows "mask_subset (drawContours cv m cs 255) p \<longleftrightarrow>
           (\<forall>y<length p. \<forall>x<length (p ! y). filled cv cs x y \<longrightarrow> p ! y ! x \<noteq> 0)"
proof -
  from assms have ml: "map length m = map length p"
    and sub: "\<forall>y<length m. \<forall>x<length (m ! y). m ! y ! x \<noteq> 0 \<longrightarrow> p ! y ! x \<noteq> 0"
    by (simp_all add: mask_subset_iff)
  from ml have len: "length m = length p" by (metis length_map)
  have row: "length (m ! y) = length (p ! y)" if "y < length p" for y
    using that len ml by (metis length_map nth_map)
  show ?thesis
    unfolding mask_subset_iff drawContours_def using ml len row sub by auto
qed

lemma clear_subset:
  assumes "mask_subset m p"
  shows "mask_subset (drawContours cv m cs 0) p"
proof -
  from assms have ml: "map length m = map length p"
    and sub: "\<forall>y<length m. \<forall>x<length (m ! y). m ! y ! x \<noteq> 0 \<longrightarrow> p ! y ! x \<noteq> 0"
    by (simp_all add: mask_subset_iff)
  show ?thesis
    unfolding mask_subset_iff drawContours_def using ml sub by auto
qed

lemma zero_mask_subset:
  assumes "map length im = map length p"
  shows "mask_subset (map (map (\<lambda>_. 0)) im) p"
  unfolding mask_subset_iff using assms by (simp add: comp_def)

lemma accepted_mask:
  assumes "find_spots_in_rect cv self (x, y, w, h) ta mr md = Inr ((ps, Some rm), s')"
    and "img_extended self = Some ext"
  shows "\<exists>thresh. img_median self \<le> real_of_int thresh \<and>
           rm = threshold_binary (slice2 ext y h x w) thresh"
  using assms
  by (intro exI [of _ "max 1 (min (py_int (thresh_otsu cv (slice2 ext y h x w)) + ta) 255)"])
     (auto simp: find_spots_in_rect_def Let_def split: if_splits simp del: concat_eq_Nil_conv)

lemma accepted_within_paper:
  assumes f: "find_spots_in_rect cv self (x, y, w, h) ta mr md = Inr ((ps, Some rm), s')"
    and c: "extended_consistent self"
  shows "roi_within_paper s'"
proof -
  from c obtain ext p where ext: "img_extended self = Some ext" and p: "paper_mask self = Some p"
    and ml: "map length ext = map length p"
    and out: "\<forall>r<length ext. \<forall>c<length (ext ! r).
                p ! r ! c = 0 \<longrightarrow> real (ext ! r ! c) \<le> img_median self"
    by (auto simp: extended_consistent_def split: option.splits)
  from accepted_mask [OF f ext] obtain thresh where
    th: "img_median self \<le> real_of_int thresh"
    and rm: "rm = threshold_binary (slice2 ext y h x w) thresh" by blast
  from find_spots_frame [OF f]
  have s': "roi s' = (x, y, w, h)" "roi_mask s' = Some rm" "paper_mask s' = Some p"
    using p by simp_all
  have "p ! (y + r) ! (x + c) \<noteq> 0"
    if r: "r < length rm" and cc: "c < length (rm ! r)" and nz: "rm ! r ! c \<noteq> 0" for r c
  proof (rule ccontr)
    assume "\<not> p ! (y + r) ! (x + c) \<noteq> 0"
    then have z: "p ! (y + r) ! (x + c) = 0" by simp
    from r rm have "r < min h (length ext - y)"
      by (simp add: threshold_binary_def length_slice2)
    then have r1: "r < h" "y + r < length ext" by auto
    from cc rm r have "c < length (slice2 ext y h x w ! r)"
      by (simp add: threshold_binary_def)
    with r1 have c1: "c < w" "x + c < length (ext ! (y + r))"
      by (auto simp: slice2_row)
    from r1 c1 have v: "slice2 ext y h x w ! r ! c = ext ! (y + r) ! (x + c)"
      by (rule slice2_nth)
    from out r1 c1 z have "real (ext ! (y + r) ! (x + c)) \<le> img_median self" by blast
    with th have "real (ext ! (y + r) ! (x + c)) \<le> real_of_int thresh" by simp
    then have "int (ext ! (y + r) ! (x + c)) \<le> thresh" by linarith
    moreover from nz rm r cc have "int (slice2 ext y h x w ! r ! c) > thresh"
      by (simp add: threshold_binary_def split: if_splits)
    ultimately show False using v by simp
  qed
  with s' show ?thesis by (simp add: roi_within_paper_def)
qed

lemma save_roi_subset:
  assumes inv: "spot_in_paper self" and rp: "roi_within_paper self"
    and pm: "paper_mask self = Some p"
    and sv: "save_roi_spots cv self = Inr self'"
  shows "spot_in_paper self'"
proof (cases "roi_polygons self = []")
  case True
  with sv inv show ?thesis by (simp add: save_roi_spots_def)
next
  case False
  obtain x y w h where roi: "roi self = (x, y, w, h)" by (cases "roi self")
  from sv False roi obtain m rm where m: "spot_mask self = Some m" and rm: "roi_mask self = Some rm"
    and sh: "same_shape (slice2 m y h x w) rm"
    and self': "self' = self\<lparr>spot_mask := Some
                      (imap2 (\<lambda>r c v. if in_window y (y + h) x (x + w) r c
                                       then v OR rm ! (r - y) ! (c - x) else v) m),
                   spot_polygons := findContours cv
                      (imap2 (\<lambda>r c v. if in_window y (y + h) x (x + w) r c
                                       then v OR rm ! (r - y) ! (c - x) else v) m)\<rparr>"
    by (auto simp: save_roi_spots_def vectorize_spots_def split: option.splits if_splits)
  from inv m pm have sub: "mask_subset m p" by (simp add: spot_in_paper_def)
  then have ml: "map length m = map length p"
    and px: "\<forall>r<length m. \<forall>c<length (m ! r). m ! r ! c \<noteq> 0 \<longrightarrow> p ! r ! c \<noteq> 0"
    by (simp_all add: mask_subset_iff)
  from rp roi rm pm
  have rq: "\<forall>r<length rm. \<forall>c<length (rm ! r). rm ! r ! c \<noteq> 0 \<longrightarrow> p ! (y + r) ! (x + c) \<noteq> 0"
    by (simp add: roi_within_paper_def)
  from sh have lrm: "length rm = length (slice2 m y h x w)"
    by (metis same_shape_def length_map)
  have rowrm: "length (rm ! i) = length (slice2 m y h x w ! i)" if "i < length rm" for i
    using that sh lrm unfolding same_shape_def by (metis length_map nth_map)
  have "p ! r ! c \<noteq> 0"
    if r: "r < length m" and c: "c < length (m ! r)" and w: "in_window y (y + h) x (x + w) r c"
      and nz: "rm ! (r - y) ! (c - x) \<noteq> 0" for r c
  proof -
    from w have b: "y \<le> r" "r < y + h" "x \<le> c" "c < x + w" by (simp_all add: in_window_def)
    from b r have "r - y < min h (length m - y)" by auto
    then have i: "r - y < length rm" by (simp add: lrm length_slice2)
    from b r have "slice2 m y h x w ! (r - y) = take w (drop x (m ! r))"
      using slice2_row [of "r - y" h y m x w] by simp
    with b c i have j: "c - x < length (rm ! (r - y))" by (auto simp: rowrm)
    from rq i j nz have "p ! (y + (r - y)) ! (x + (c - x)) \<noteq> 0" by blast
    with b show ?thesis by simp
  qed
  with px ml have "mask_subset
      (imap2 (\<lambda>r c v. if in_window y (y + h) x (x + w) r c
                       then v OR rm ! (r - y) ! (c - x) else v) m) p"
    unfolding mask_subset_iff by (auto simp: or_eq_0_iff)
  with self' pm show ?thesis by (simp add: spot_in_paper_def)
qed

text \<open>
  Claim C2, as stated, fails: \<open>fill_poly_selection\<close> draws the polygon into the spot mask
  and does not look at the paper mask. With the paper on the top row of an image of 2 x 2
  pixels and an empty spot mask, filling the unit square makes the two pixels of the
  bottom row foreground, outside the paper.
\<close>

theorem fill_outside_paper_counterexample:
  "paper_mask half_paper_processor = Some [[255, 255], [0, 0]] \<and>
   spot_in_paper half_paper_processor \<and>
   map_sum id spot_mask (fill_poly_selection cv_example half_paper_processor unit_square) =
     Inr (Some [[255, 255], [255, 255]]) \<and>
   map_sum id spot_in_paper (fill_poly_selection cv_example half_paper_processor unit_square) =
     Inr False"
  by (simp add: fill_poly_selection_def vectorize_spots_def half_paper_processor_def
        VsaProcessor_init_def drawContours_def imap2_def enumerate_eq_zip cv_example_def
        box_filled_def unit_square_def spot_in_paper_def mask_subset_def)

text \<open>
  Claim C2, amended. Let the processor have a paper mask. After \<open>segment_spots\<close> on a loaded
  image the spot mask is within the paper mask. \<open>clear_poly_selection\<close> keeps it within.
  The mask of a rectangle that \<open>_find_spots_in_rect\<close> accepts has no foreground outside the
  paper mask, when the extended image is as \<open>extend_image\<close> leaves it; and
  \<open>save_roi_spots\<close> with such a mask keeps the spot mask within the paper mask.
  \<open>fill_poly_selection\<close> and \<open>set_spot_polygons\<close> draw the polygons as they are given:
  after them the spot mask is within the paper mask if and only if the polygons cover no
  pixel outside the paper mask.
\<close>

theorem spot_mask_within_paper:
  assumes "paper_mask self = Some p"
  shows "(img self = Some im \<and> im \<noteq> [] \<and> segment_spots cv self ta mr md = Inr self' \<longrightarrow>
            spot_in_paper self') \<and>
         (spot_in_paper self \<and> clear_poly_selection cv self polygon = Inr self' \<longrightarrow>
            spot_in_paper self') \<and>
         (extended_consistent self \<and>
            find_spots_in_rect cv self (x, y, w, h) ta mr md = Inr ((ps, Some rm), self') \<longrightarrow>
            roi_within_paper self') \<and>
         (spot_in_paper self \<and> roi_within_paper self \<and> save_roi_spots cv self = Inr self' \<longrightarrow>
            spot_in_paper self') \<and>
         (spot_in_paper self \<and> img self = Some im \<and>
            fill_poly_selection cv self polygon = Inr self' \<longrightarrow>
            (spot_in_paper self' \<longleftrightarrow>
               (\<forall>r<length p. \<forall>c<length (p ! r). filled cv [polygon] c r \<longrightarrow> p ! r ! c \<noteq> 0))) \<and>
         (img self = Some im \<and> map length im = map length p \<longrightarrow>
            (spot_in_paper (set_spot_polygons cv self polygons) \<longleftrightarrow>
               (\<forall>r<length p. \<forall>c<length (p ! r). filled cv polygons c r \<longrightarrow> p ! r ! c \<noteq> 0)))"
proof (intro conjI impI)
  assume "img self = Some im \<and> im \<noteq> [] \<and> segment_spots cv self ta mr md = Inr self'"
  with segment_spots_subset [of cv self ta mr md self' im p] assms
  show "spot_in_paper self'" by (auto simp: spot_in_paper_def)
next
  assume a: "spot_in_paper self \<and> clear_poly_selection cv self polygon = Inr self'"
  show "spot_in_paper self'"
  proof (cases "img self")
    case None
    with a show ?thesis by (auto simp: clear_poly_selection_def)
  next
    case (Some i)
    with a obtain m where m: "spot_mask self = Some m"
      and s: "self' = self\<lparr>spot_mask := Some (drawContours cv m [polygon] 0),
                             spot_polygons := findContours cv (drawContours cv m [polygon] 0)\<rparr>"
      by (auto simp: clear_poly_selection_def vectorize_spots_def split: option.splits)
    from a m assms have "mask_subset m p" by (simp add: spot_in_paper_def)
    then have "mask_subset (drawContours cv m [polygon] 0) p" by (rule clear_subset)
    with s assms show ?thesis by (simp add: spot_in_paper_def)
  qed
next
  assume "extended_consistent self \<and>
    find_spots_in_rect cv self (x, y, w, h) ta mr md = Inr ((ps, Some rm), self')"
  then show "roi_within_paper self'" using accepted_within_paper by blast
next
  assume "spot_in_paper self \<and> roi_within_paper self \<and> save_roi_spots cv self = Inr self'"
  with assms show "spot_in_paper self'" using save_roi_subset by blast
next
  assume a: "spot_in_paper self \<and> img self = Some im \<and>
    fill_poly_selection cv self polygon = Inr self'"
  then have i: "img self = Some im" and f: "fill_poly_selection cv self polygon = Inr self'"
    by simp_all
  from f i obtain m where m: "spot_mask self = Some m"
    by (cases "spot_mask self") (simp_all add: fill_poly_selection_def)
  from f i m
  have s: "self' = self\<lparr>spot_mask := Some (drawContours cv m [polygon] 255),
                           spot_polygons := findContours cv (drawContours cv m [polygon] 255)\<rparr>"
    by (simp add: fill_poly_selection_def vectorize_spots_def)
  from a m assms have sub: "mask_subset m p" by (simp add: spot_in_paper_def)
  from s assms
  have "spot_in_paper self' \<longleftrightarrow> mask_subset (drawContours cv m [polygon] 255) p"
    by (simp add: spot_in_paper_def)
  also note draw_subset_iff [OF sub, of cv "[polygon]"]
  finally show "spot_in_paper self' \<longleftrightarrow>
      (\<forall>r<length p. \<forall>c<length (p ! r). filled cv [polygon] c r \<longrightarrow> p ! r ! c \<noteq> 0)" .
next
  assume a: "img self = Some im \<and> map length im = map length p"
  then have sub: "mask_subset (map (map (\<lambda>_. 0)) im) p" by (simp add: zero_mask_subset)
  from a assms
  have "spot_in_paper (set_spot_polygons cv self polygons) \<longleftrightarrow>
      mask_subset (drawContours cv (map (map (\<lambda>_. 0)) im) polygons 255) p"
    by (simp add: spot_in_paper_def set_spot_polygons_def)
  also note draw_subset_iff [OF sub, of cv polygons]
  finally show "spot_in_paper (set_spot_polygons cv self polygons) \<longleftrightarrow>
      (\<forall>r<length p. \<forall>c<length (p ! r). filled cv polygons c r \<longrightarrow> p ! r ! c \<noteq> 0)" .
qed

lemma segment_example:
  "\<exists>self'. segment_spots cv_example tiled_processor 0 40 0 = Inr self'"
proof -
  have "img tiled_processor = Some [[10, 200, 10], [10, 10, 10]]"
    "img_extended tiled_processor = Some [[10, 200, 10], [10, 10, 10]]"
    "paper_mask tiled_processor = Some [[255, 255, 255], [255, 255, 0]]"
    "0 < win_size tiled_processor"
    by (simp_all add: tiled_processor_def VsaProcessor_init_def)
  moreover have "is_array 2 3 [[10, 200, 10], [10, 10, 10 :: nat]]"
    "is_array 2 3 [[255, 255, 255], [255, 255, 0 :: 8 word]]"
    by (simp_all add: is_array_def)
  ultimately show ?thesis
    using segment_spots_pixels [of tiled_processor _ 2 3 _ _ cv_example 0 40 0] by fastforce
qed

lemma top_row_filled:
  "filled cv_example [top_row] c r \<longleftrightarrow> r = 0 \<and> c \<le> 1"
  by (auto simp: cv_example_def box_filled_def top_row_def)

lemma unit_square_filled:
  "filled cv_example [unit_square] c r \<longleftrightarrow> r \<le> 1 \<and> c \<le> 1"
  by (auto simp: cv_example_def box_filled_def unit_square_def)

lemma consistent_example: "extended_consistent tiled_processor"
  by (auto simp: extended_consistent_def tiled_processor_def VsaProcessor_init_def
        less_Suc_eq nth_Cons')

lemma find_example:
  "find_spots_in_rect cv_example tiled_processor (0, 0, 2, 2) 0 40 0 =
     Inr (([[(1, 0)]], Some [[0, 255], [0, 0]]),
          tiled_processor\<lparr>roi := (0, 0, 2, 2), roi_mask := Some [[0, 255], [0, 0]],
                            roi_polygons := []\<rparr>)"
  by (simp add: find_spots_in_rect_def tiled_processor_def VsaProcessor_init_def
        slice2_def Let_def cv_example_def smallest_sample_def py_int_def threshold_binary_def
        np_any_def pixel_contours_def enumerate_eq_zip)

lemma roi_example:
  "segment_spots_in_roi cv_example tiled_processor (0, 0, 2, 2) 0 40 0 =
     Inr (tiled_processor\<lparr>roi := (0, 0, 2, 2), roi_mask := Some [[0, 255], [0, 0]],
                            roi_polygons := [[(1, 0)]]\<rparr>)"
  by (simp add: segment_spots_in_roi_def find_example)
     (simp add: have_img_def tiled_processor_def VsaProcessor_init_def)

lemma commit_example:
  "\<exists>s. save_roi_spots cv_example
          (tiled_processor\<lparr>roi := (0, 0, 2, 2), roi_mask := Some [[0, 255], [0, 0]],
                             roi_polygons := [[(1, 0)]]\<rparr>) = Inr s"
  by (simp add: save_roi_spots_def tiled_processor_def VsaProcessor_init_def slice2_def
        same_shape_def vectorize_spots_def)

text \<open>
  The theorem on the two example processors: whole-image segmentation and the commit of
  an accepted rectangle on the image of 2 x 3 pixels; clearing, filling the top row (which
  is paper) and loading polygons on the image whose paper is the top row.
\<close>

theorem spot_mask_within_paper_witness:
  "paper_mask tiled_processor = Some [[255, 255, 255], [255, 255, 0]] \<and>
   map_sum id spot_in_paper (segment_spots cv_example tiled_processor 0 40 0) = Inr True \<and>
   extended_consistent tiled_processor \<and>
   map_sum id roi_within_paper
     (segment_spots_in_roi cv_example tiled_processor (0, 0, 2, 2) 0 40 0) = Inr True \<and>
   map_sum id spot_in_paper (roi_commit cv_example tiled_processor (0, 0, 2, 2) 0 40 0) =
     Inr True \<and>
   paper_mask half_paper_processor = Some [[255, 255], [0, 0]] \<and>
   spot_in_paper half_paper_processor \<and>
   map_sum id spot_in_paper (clear_poly_selection cv_example half_paper_processor unit_square) =
     Inr True \<and>
   map_sum id spot_in_paper (fill_poly_selection cv_example half_paper_processor top_row) =
     Inr True \<and>
   spot_in_paper (set_spot_polygons cv_example half_paper_processor [top_row]) \<and>
   \<not> spot_in_paper (set_spot_polygons cv_example half_paper_processor [unit_square])"
proof -
  let ?p = "[[255, 255], [0, 0 :: 8 word]]"
  let ?q = "[[255, 255, 255], [255, 255, 0 :: 8 word]]"
  let ?sf = "tiled_processor\<lparr>roi := (0, 0, 2, 2), roi_mask := Some [[0, 255], [0, 0]],
                              roi_polygons := []\<rparr>"
  let ?sr = "tiled_processor\<lparr>roi := (0, 0, 2, 2), roi_mask := Some [[0, 255], [0, 0]],
                              roi_polygons := [[(1, 0)]]\<rparr>"
  have pt: "paper_mask tiled_processor = Some ?q"
    and it: "img tiled_processor = Some [[10, 200, 10], [10, 10, 10]]"
    and pr: "paper_mask ?sr = Some ?q"
    by (simp_all add: tiled_processor_def VsaProcessor_init_def)
  have ph: "paper_mask half_paper_processor = Some ?p"
    and ih: "img half_paper_processor = Some [[10, 10], [3, 3]]"
    and sh: "spot_in_paper half_paper_processor"
    by (simp_all add: half_paper_processor_def VsaProcessor_init_def spot_in_paper_def
          mask_subset_def)
  from segment_example obtain s1 where
    seg: "segment_spots cv_example tiled_processor 0 40 0 = Inr s1" by blast
  obtain s2 where cl: "clear_poly_selection cv_example half_paper_processor unit_square = Inr s2"
    by (simp add: clear_poly_selection_def vectorize_spots_def half_paper_processor_def
          VsaProcessor_init_def)
  obtain s3 where fl: "fill_poly_selection cv_example half_paper_processor top_row = Inr s3"
    by (simp add: fill_poly_selection_def vectorize_spots_def half_paper_processor_def
          VsaProcessor_init_def)
  from commit_example obtain s4 where sv: "save_roi_spots cv_example ?sr = Inr s4" by blast
  have in_top: "\<forall>r<length ?p. \<forall>c<length (?p ! r). filled cv_example [top_row] c r \<longrightarrow> ?p ! r ! c \<noteq> 0"
    by (auto simp: top_row_filled less_Suc_eq)
  have out_sq: "\<not> (\<forall>r<length ?p. \<forall>c<length (?p ! r).
                     filled cv_example [unit_square] c r \<longrightarrow> ?p ! r ! c \<noteq> 0)"
    by (auto simp: unit_square_filled intro!: exI [of _ 1])
  have ml: "map length [[10, 10], [3, 3 :: nat]] = map length ?p" by simp
  from spot_mask_within_paper [OF pt, where im = "[[10, 200, 10], [10, 10, 10]]"
         and cv = cv_example and ta = 0 and mr = 40 and md = 0 and self' = s1]
       it seg
  have a: "spot_in_paper s1" by simp
  from spot_mask_within_paper [OF pt, where cv = cv_example and ta = 0 and mr = 40 and md = 0
         and x = 0 and y = 0 and w = 2 and h = 2 and ps = "[[(1, 0)]]"
         and rm = "[[0, 255], [0, 0]]" and self' = "?sf"]
       consistent_example find_example
  have "roi_within_paper ?sf" by simp
  then have rw: "roi_within_paper ?sr" by (simp add: roi_within_paper_def)
  have sr: "spot_in_paper ?sr"
    by (simp add: tiled_processor_def VsaProcessor_init_def spot_in_paper_def mask_subset_def)
  from spot_mask_within_paper [OF pr, where cv = cv_example and self' = s4] sr rw sv
  have f: "spot_in_paper s4" by simp
  from spot_mask_within_paper [OF ph, where cv = cv_example and self' = s2
         and polygon = unit_square] sh cl
  have b: "spot_in_paper s2" by simp
  from spot_mask_within_paper [OF ph, where im = "[[10, 10], [3, 3]]" and cv = cv_example
         and self' = s3 and polygon = top_row] sh ih fl in_top
  have c: "spot_in_paper s3" by simp
  from spot_mask_within_paper [OF ph, where im = "[[10, 10], [3, 3]]" and cv = cv_example
         and polygons = "[top_row]"] ih ml in_top
  have d: "spot_in_paper (set_spot_polygons cv_example half_paper_processor [top_row])" by simp
  from spot_mask_within_paper [OF ph, where im = "[[10, 10], [3, 3]]" and cv = cv_example
         and polygons = "[unit_square]"] ih ml out_sq
  have e: "\<not> spot_in_paper (set_spot_polygons cv_example half_paper_processor [unit_square])"
    by simp
  have rc: "roi_commit cv_example tiled_processor (0, 0, 2, 2) 0 40 0 = Inr s4"
    by (simp add: roi_commit_def roi_example sv)
  from pt ph sh seg cl fl a b c d e f rw rc consistent_example show ?thesis
    by (simp add: roi_example)
qed

end
